theory Spec2Isabelle
  imports Main "HOL-Library.Word" "HOL-Library.Sublist"
begin

unbundle bit_operations_syntax

section \<open>String functions (src/function/string_functions.cpp)\<close>

subsection \<open>Character classification of the C library\<close>

text \<open>
  A C \<^verbatim>\<open>char\<close> is a byte, which is what the HOL type \<^typ>\<open>char\<close> is. On the platform the
  server is built for (x86-64 Linux) \<^verbatim>\<open>char\<close> is signed: \<open>schar c\<close> is the value of the
  byte \<open>c\<close> as an expression of type \<^verbatim>\<open>char\<close>, after promotion to \<^verbatim>\<open>int\<close>, and \<open>to_schar\<close> is
  the conversion of an \<^verbatim>\<open>int\<close> to \<^verbatim>\<open>char\<close>, promoted again.

  \<open>c_tolower\<close> and \<open>c_toupper\<close> are \<^verbatim>\<open>tolower\<close> and \<^verbatim>\<open>toupper\<close> of the C library in the "C"
  locale (the server never selects another one), as functions from \<^verbatim>\<open>int\<close> to \<^verbatim>\<open>int\<close>: only
  the 26 ASCII letters are mapped. The source passes them a \<^verbatim>\<open>char\<close>, that is, a value
  from \<open>-128\<close> to \<open>127\<close>; for a negative one other than \<open>-1\<close> (\<^verbatim>\<open>EOF\<close>) the library returns the
  value of the same byte read as \<^verbatim>\<open>unsigned char\<close>, and for \<open>-1\<close> it returns \<open>-1\<close>.

  \<open>tolower\<close> and \<open>toupper\<close> on bytes are what \<^verbatim>\<open>new_str[i] = tolower(str[i])\<close> stores: the
  result of the library function converted to \<^verbatim>\<open>char\<close>. They map the ASCII letters and
  leave every other byte as it is (\<open>schar_tolower\<close> and \<open>schar_toupper\<close> below).
\<close>

definition schar :: "char \<Rightarrow> int" where
  "schar c = (if (of_char c :: nat) < 128 then int (of_char c) else int (of_char c) - 256)"

definition to_schar :: "int \<Rightarrow> int" where
  "to_schar i = (i + 128) mod 256 - 128"

definition c_tolower :: "int \<Rightarrow> int" where
  "c_tolower i = (if 65 \<le> i \<and> i \<le> 90 then i + 32 else if - 128 \<le> i \<and> i < - 1 then i + 256 else i)"

definition c_toupper :: "int \<Rightarrow> int" where
  "c_toupper i = (if 97 \<le> i \<and> i \<le> 122 then i - 32 else if - 128 \<le> i \<and> i < - 1 then i + 256 else i)"

definition tolower :: "char \<Rightarrow> char" where
  "tolower c = (if 65 \<le> (of_char c :: nat) \<and> (of_char c :: nat) \<le> 90
                then char_of ((of_char c :: nat) + 32) else c)"

definition toupper :: "char \<Rightarrow> char" where
  "toupper c = (if 97 \<le> (of_char c :: nat) \<and> (of_char c :: nat) \<le> 122
                then char_of ((of_char c :: nat) - 32) else c)"

lemma of_char_less_256: "(of_char c :: nat) < 256"
proof -
  have "(of_char c :: nat) mod 256 < 256" by simp
  then show ?thesis by (simp only: of_char_mod_256)
qed

lemma to_schar_low: "- 128 \<le> i \<Longrightarrow> i < 128 \<Longrightarrow> to_schar i = i"
  by (simp add: to_schar_def)

lemma to_schar_high: "128 \<le> i \<Longrightarrow> i < 384 \<Longrightarrow> to_schar i = i - 256"
proof -
  assume a: "128 \<le> i" "i < 384"
  have "i + 128 = (i - 128) + 256" by simp
  then have "(i + 128) mod 256 = ((i - 128) + 256) mod 256" by (rule arg_cong)
  also have "\<dots> = (i - 128) mod 256" by (simp only: mod_add_self2)
  also have "\<dots> = i - 128" using a by simp
  finally show ?thesis by (simp add: to_schar_def)
qed

lemma schar_range: "- 128 \<le> schar c" "schar c < 128"
proof -
  have b: "int (of_char c) < 256" using of_char_less_256 [of c] by linarith
  show "- 128 \<le> schar c" unfolding schar_def by simp
  show "schar c < 128"
  proof (cases "(of_char c :: nat) < 128")
    case True
    then show ?thesis by (simp add: schar_def)
  next
    case False
    then have "schar c = int (of_char c) - 256" by (simp add: schar_def)
    with b show ?thesis by linarith
  qed
qed

lemma tolower_high: "128 \<le> (of_char c :: nat) \<Longrightarrow> tolower c = c"
  by (simp add: tolower_def)

lemma toupper_high: "128 \<le> (of_char c :: nat) \<Longrightarrow> toupper c = c"
  by (simp add: toupper_def)

lemma schar_low: "(of_char c :: nat) < 128 \<Longrightarrow> schar c = int (of_char c)"
  by (simp add: schar_def)

lemma schar_negative: "128 \<le> (of_char c :: nat) \<Longrightarrow> schar c < 0"
proof -
  assume h: "128 \<le> (of_char c :: nat)"
  have b: "int (of_char c) < 256" using of_char_less_256 [of c] by linarith
  from h have "schar c = int (of_char c) - 256" by (simp add: schar_def)
  with b show ?thesis by linarith
qed

lemma to_schar_c_tolower_negative:
  assumes "- 128 \<le> i" and "i < 0"
  shows "to_schar (c_tolower i) = i" and "to_schar (c_toupper i) = i"
proof -
  show "to_schar (c_tolower i) = i"
  proof (cases "i = - 1")
    case True
    then show ?thesis by (simp add: c_tolower_def to_schar_low)
  next
    case False
    with assms have "c_tolower i = i + 256" by (simp add: c_tolower_def)
    moreover have "to_schar (i + 256) = i + 256 - 256"
      using assms by (intro to_schar_high) simp_all
    ultimately show ?thesis by simp
  qed
  show "to_schar (c_toupper i) = i"
  proof (cases "i = - 1")
    case True
    then show ?thesis by (simp add: c_toupper_def to_schar_low)
  next
    case False
    with assms have "c_toupper i = i + 256" by (simp add: c_toupper_def)
    moreover have "to_schar (i + 256) = i + 256 - 256"
      using assms by (intro to_schar_high) simp_all
    ultimately show ?thesis by simp
  qed
qed

lemma schar_tolower: "schar (tolower c) = to_schar (c_tolower (schar c))"
proof (cases "(of_char c :: nat) < 128")
  case True
  then show ?thesis
    by (auto simp: tolower_def c_tolower_def to_schar_low schar_def)
next
  case False
  then have h: "128 \<le> (of_char c :: nat)" by simp
  from to_schar_c_tolower_negative(1) [OF schar_range(1) schar_negative [OF h]] tolower_high [OF h]
  show ?thesis by simp
qed

lemma schar_toupper: "schar (toupper c) = to_schar (c_toupper (schar c))"
proof (cases "(of_char c :: nat) < 128")
  case True
  then show ?thesis
    by (auto simp: toupper_def c_toupper_def to_schar_low schar_def)
next
  case False
  then have h: "128 \<le> (of_char c :: nat)" by simp
  from to_schar_c_tolower_negative(2) [OF schar_range(1) schar_negative [OF h]] toupper_high [OF h]
  show ?thesis by simp
qed

lemma c_tolower_schar_tolower [simp]: "c_tolower (schar (tolower c)) = c_tolower (schar c)"
proof (cases "(of_char c :: nat) < 128")
  case True
  then show ?thesis
    by (auto simp: tolower_def c_tolower_def schar_def)
next
  case False
  then show ?thesis by (simp add: tolower_def)
qed

subsection \<open>\<^verbatim>\<open>StringFunctions::Like\<close>\<close>

text \<open>
  The text \<open>t\<close> and the pattern \<open>p\<close> are passed as a pointer and a length; the model takes
  the \<open>tlen\<close> (resp. \<open>plen\<close>) bytes behind the pointer as a list, so that
  \<^verbatim>\<open>NextByte\<close> is the tail of the list and \<^verbatim>\<open>tlen > 0\<close> is non-emptiness. Every read of
  \<^verbatim>\<open>*p\<close>, \<^verbatim>\<open>p[1]\<close> and \<^verbatim>\<open>*t\<close> in the source is guarded by the length, which the
  patterns of the equations below reproduce. \<open>CHR 0x5C\<close> is the backslash.

  \<open>like_skip\<close> is the inner \<^verbatim>\<open>while (plen > 0)\<close> loop after a \<^verbatim>\<open>%\<close>: it skips further
  \<^verbatim>\<open>%\<close>, lets every \<^verbatim>\<open>_\<close> consume one byte of the text, and stops at the first other
  byte; \<open>None\<close> is its \<^verbatim>\<open>return false\<close>.
\<close>

fun like_skip :: "string \<Rightarrow> string \<Rightarrow> (string \<times> string) option" where
  "like_skip t [] = Some (t, [])"
| "like_skip t (c # p) =
     (if c = CHR ''%'' then like_skip t p
      else if c = CHR ''_'' then
        (case t of [] \<Rightarrow> None | _ # t' \<Rightarrow> like_skip t' p)
      else Some (t, c # p))"

text \<open>
  The code after the main loop: text left over is a mismatch, and a pattern left over
  matches only if it consists of \<^verbatim>\<open>%\<close>.
\<close>

definition like_tail :: "string \<Rightarrow> string \<Rightarrow> bool" where
  "like_tail t p = (if t \<noteq> [] then False else dropWhile (\<lambda>c. c = CHR ''%'') p = [])"

lemma like_skip_length:
  "like_skip t p = Some (t1, p1) \<Longrightarrow> length p1 \<le> length p \<and> length t1 \<le> length t"
  by (induction t p rule: like_skip.induct) (auto split: if_splits list.splits)

text \<open>
  \<open>Like\<close> is the function's entry (with the shortcut for the pattern \<^verbatim>\<open>%\<close>), \<open>like_loop\<close>
  its main \<^verbatim>\<open>while (tlen > 0 && plen > 0)\<close> loop, and \<open>like_scan\<close> the
  \<^verbatim>\<open>while (tlen > 0)\<close> loop of the \<^verbatim>\<open>%\<close> branch, which calls \<open>Like\<close> recursively at
  every position of the text whose byte matches \<open>firstpat\<close>.

  The comparisons \<^verbatim>\<open>tolower(*p) != tolower(*t)\<close> are between the two \<^verbatim>\<open>int\<close> results of the
  library function. \<^verbatim>\<open>firstpat\<close> however is declared \<^verbatim>\<open>char\<close>: the result of \<^verbatim>\<open>tolower\<close> is
  converted to \<^verbatim>\<open>char\<close> when it is stored and promoted to \<^verbatim>\<open>int\<close> again when
  \<^verbatim>\<open>tolower(*t) == firstpat\<close> compares it, so \<open>like_scan\<close> takes it as an integer.
\<close>

function Like :: "string \<Rightarrow> string \<Rightarrow> bool"
  and like_loop :: "string \<Rightarrow> string \<Rightarrow> bool"
  and like_scan :: "int \<Rightarrow> string \<Rightarrow> string \<Rightarrow> bool"
where
  "Like t p = (if p = [CHR ''%''] then True else like_loop t p)"
| "like_loop [] p = like_tail [] p"
| "like_loop (tc # t) [] = like_tail (tc # t) []"
| "like_loop (tc # t) (pc # p) =
     (if pc = CHR 0x5C then
        (case p of
           [] \<Rightarrow> False
         | pc' # p' \<Rightarrow>
             if c_tolower (schar pc') \<noteq> c_tolower (schar tc) then False else like_loop t p')
      else if pc = CHR ''%'' then
        (case like_skip (tc # t) p of
           None \<Rightarrow> False
         | Some (t1, p1) \<Rightarrow>
             (case p1 of
                [] \<Rightarrow> True
              | q # p2 \<Rightarrow>
                  if q = CHR 0x5C then
                    (case p2 of
                       [] \<Rightarrow> False
                     | q' # _ \<Rightarrow> like_scan (to_schar (c_tolower (schar q'))) t1 p1)
                  else like_scan (to_schar (c_tolower (schar q))) t1 p1))
      else if pc = CHR ''_'' then like_loop t p
      else if c_tolower (schar pc) \<noteq> c_tolower (schar tc) then False
      else like_loop t p)"
| "like_scan firstpat [] p = False"
| "like_scan firstpat (tc # t) p =
     (if c_tolower (schar tc) = firstpat \<and> Like (tc # t) p then True
      else like_scan firstpat t p)"
  by pat_completeness auto
termination
  apply (relation "measures
     [\<lambda>x. case x of Inl (t, p) \<Rightarrow> length p | Inr (Inl (t, p)) \<Rightarrow> length p | Inr (Inr (f, t, p)) \<Rightarrow> length p,
      \<lambda>x. case x of Inl (t, p) \<Rightarrow> 1 | Inr (Inl (t, p)) \<Rightarrow> 0 | Inr (Inr (f, t, p)) \<Rightarrow> 2 + length t]")
  apply (auto dest!: like_skip_length)
  done


lemma of_char_tolower:
  "(of_char (tolower c) :: nat) =
     (if 65 \<le> (of_char c :: nat) \<and> (of_char c :: nat) \<le> 90 then of_char c + 32 else of_char c)"
  by (simp add: tolower_def)

lemma tolower_idem: "tolower (tolower c) = tolower c"
  by (simp add: tolower_def)

lemma tolower_fixes:
  assumes "(of_char x :: nat) < 65 \<or> (90 < (of_char x :: nat) \<and> (of_char x :: nat) < 97) \<or> 122 < (of_char x :: nat)"
  shows "tolower c = x \<longleftrightarrow> c = x"
proof
  assume "tolower c = x"
  then have "(of_char (tolower c) :: nat) = of_char x" by simp
  with assms have "\<not> (65 \<le> (of_char c :: nat) \<and> (of_char c :: nat) \<le> 90)"
    by (auto simp: of_char_tolower split: if_splits)
  with \<open>tolower c = x\<close> show "c = x" by (simp add: tolower_def)
next
  assume "c = x"
  with assms show "tolower c = x" by (auto simp: tolower_def)
qed

lemma tolower_percent [simp]: "tolower c = CHR ''%'' \<longleftrightarrow> c = CHR ''%''"
  by (rule tolower_fixes) simp

lemma tolower_underscore [simp]: "tolower c = CHR ''_'' \<longleftrightarrow> c = CHR ''_''"
  by (rule tolower_fixes) simp

lemma tolower_backslash [simp]: "tolower c = CHR 0x5C \<longleftrightarrow> c = CHR 0x5C"
  by (rule tolower_fixes) simp

lemma like_skip_tolower:
  "like_skip (map tolower t) (map tolower p) =
     map_option (\<lambda>(t1, p1). (map tolower t1, map tolower p1)) (like_skip t p)"
  by (induction t p rule: like_skip.induct) (auto split: list.splits)

lemma like_tail_tolower: "like_tail (map tolower t) (map tolower p) = like_tail t p"
proof -
  have "dropWhile (\<lambda>c. c = CHR ''%'') (map tolower p) = [] \<longleftrightarrow> dropWhile (\<lambda>c. c = CHR ''%'') p = []"
    by (induction p) auto
  then show ?thesis by (simp add: like_tail_def)
qed

lemma Like_tolower_all:
  "Like t p = Like (map tolower t) (map tolower p)"
  "like_loop t p = like_loop (map tolower t) (map tolower p)"
  "like_scan f t p = like_scan f (map tolower t) (map tolower p)"
proof (induction t p and t p and f t p rule: Like_like_loop_like_scan.induct)
  case (1 t p)
  then show ?case by (auto simp: map_eq_Cons_conv)
next
  case (2 p)
  show ?case using like_tail_tolower [of "[]" p] by simp
next
  case (3 tc t)
  show ?case by (simp add: like_tail_def)
next
  case (4 tc t pc p)
  consider (esc) "pc = CHR 0x5C" | (pct) "pc \<noteq> CHR 0x5C" "pc = CHR ''%''"
    | (und) "pc \<noteq> CHR 0x5C" "pc \<noteq> CHR ''%''" "pc = CHR ''_''"
    | (lit) "pc \<noteq> CHR 0x5C" "pc \<noteq> CHR ''%''" "pc \<noteq> CHR ''_''"
    by blast
  then show ?case
  proof cases
    case esc
    show ?thesis
    proof (cases p)
      case Nil
      with esc show ?thesis by simp
    next
      case (Cons pc' p')
      with esc 4(1) show ?thesis by (simp add: tolower_idem)
    qed
  next
    case pct
    show ?thesis
    proof (cases "like_skip (tc # t) p")
      case None
      with pct show ?thesis
        using like_skip_tolower [of "tc # t" p] by simp
    next
      case (Some r)
      obtain t1 p1 where r: "r = (t1, p1)" by (cases r)
      have sk: "like_skip (tolower tc # map tolower t) (map tolower p) = Some (map tolower t1, map tolower p1)"
        using like_skip_tolower [of "tc # t" p] Some r by simp
      show ?thesis
      proof (cases p1)
        case Nil
        with pct Some r sk show ?thesis by simp
      next
        case (Cons q p2)
        show ?thesis
        proof (cases "q = CHR 0x5C")
          case True
          show ?thesis
          proof (cases p2)
            case Nil
            with pct Some r sk Cons True show ?thesis by simp
          next
            case (Cons q' p3)
            with pct Some r sk \<open>p1 = q # p2\<close> True
              4(2) [OF pct(1) pct(2) Some [unfolded r] refl \<open>p1 = q # p2\<close> True Cons]
            show ?thesis by (simp add: tolower_idem)
          qed
        next
          case False
          with pct Some r sk Cons
            4(3) [OF pct(1) pct(2) Some [unfolded r] refl Cons False]
          show ?thesis by (simp add: tolower_idem)
        qed
      qed
    qed
  next
    case und
    with 4(4) show ?thesis by simp
  next
    case lit
    with 4(5) show ?thesis by (simp add: tolower_idem)
  qed
next
  case (5 firstpat p)
  show ?case by simp
next
  case (6 firstpat tc t p)
  then show ?case by (simp add: tolower_idem)
qed


subsection \<open>\<^verbatim>\<open>Upper\<close>, \<^verbatim>\<open>Lower\<close>, \<^verbatim>\<open>Concat\<close> and their SQL wrappers\<close>

text \<open>
  Modelled from the spec: \<^verbatim>\<open>type::Value\<close>, \<^verbatim>\<open>type::ValueFactory\<close> and
  \<^verbatim>\<open>executor::ExecutorContext\<close> are declared outside the files at hand (and the
  specification leaves the SQL functions to their collaborators), so only what the
  wrappers use of them is modelled. A value is either the NULL of some type or a
  VARCHAR holding its bytes as stored, the terminating NUL included (the source's
  comments: "length includes null byte"). \<open>GetAs\<close> is the pointer to these bytes and
  \<open>GetLength\<close> their number. \<open>GetVarcharValue_cstr\<close> is the factory function taking a C
  string (it reads up to the first NUL), \<open>GetVarcharValue_len\<close> the one taking a
  pointer and a length. An executor context is the log of the sizes allocated from its
  memory pool, which is the only effect the string operations have.
\<close>

datatype TypeId = BOOLEAN | INTEGER | DECIMAL | VARCHAR

datatype Value = NullValue TypeId | VarcharValue string

datatype error = AssertionFailed | OutOfBounds | ScriptExhausted | NonTermination

type_synonym ExecutorContext = "nat list"

fun IsNull :: "Value \<Rightarrow> bool" where
  "IsNull (NullValue _) = True"
| "IsNull (VarcharValue _) = False"

definition GetNullValueByType :: "TypeId \<Rightarrow> Value" where
  "GetNullValueByType ty = NullValue ty"

fun GetAs :: "Value \<Rightarrow> string" where
  "GetAs (VarcharValue bytes) = bytes"
| "GetAs (NullValue _) = []"

fun GetLength :: "Value \<Rightarrow> nat" where
  "GetLength (VarcharValue bytes) = length bytes"
| "GetLength (NullValue _) = 0"

definition GetVarcharValue_cstr :: "string \<Rightarrow> Value" where
  "GetVarcharValue_cstr str = VarcharValue (takeWhile (\<lambda>c. c \<noteq> CHR 0x00) str @ [CHR 0x00])"

definition GetVarcharValue_len :: "string \<Rightarrow> nat \<Rightarrow> Value" where
  "GetVarcharValue_len str n = VarcharValue (take n str)"

text \<open>
  \<^verbatim>\<open>Upper\<close> and \<^verbatim>\<open>Lower\<close> allocate \<open>length\<close> bytes and fill them in a loop over
  \<^verbatim>\<open>i = 0 .. length - 1\<close> with \<^verbatim>\<open>toupper(str[i])\<close> (resp. \<^verbatim>\<open>tolower\<close>).
\<close>

definition Upper :: "ExecutorContext \<Rightarrow> string \<Rightarrow> nat \<Rightarrow> ExecutorContext \<times> string" where
  "Upper ctx str len = (ctx @ [len], map toupper (take len str))"

definition Lower :: "ExecutorContext \<Rightarrow> string \<Rightarrow> nat \<Rightarrow> ExecutorContext \<times> string" where
  "Lower ctx str len = (ctx @ [len], map tolower (take len str))"

text \<open>
  \<open>memcpy_at dst off src n\<close> is \<^verbatim>\<open>PL_MEMCPY(dst + off, src, n)\<close> on a buffer held as a list;
  the offset is an integer, since the source computes it by pointer arithmetic that
  can leave the buffer at its front. A copy that leaves the target buffer or reads
  more bytes than the source string holds is undefined behaviour of the source and
  ends the run in \<open>Inl OutOfBounds\<close>.

  \<^verbatim>\<open>Concat\<close> sums the lengths in \<^verbatim>\<open>uint32_t\<close> (each minus its NUL, plus one NUL at the end):
  \<open>concat_size\<close> is \<^verbatim>\<open>target_size\<close> after \<open>i\<close> rounds of the first loop, with the wrap-around
  of \<^verbatim>\<open>uint32_t\<close> written out. It then allocates, copies the first string to the front
  and every further string \<open>i\<close> to the offset \<^verbatim>\<open>concat_lengths[i - 1] - 1\<close>, which is \<open>-1\<close> for
  a length of 0: \<open>concat_copy\<close> is the buffer after \<open>k\<close> rounds of the second loop, whose
  round \<open>k\<close> has \<^verbatim>\<open>i = k + 1\<close>. The two arrays are lists; reading them beyond their end
  (as the source does for \<^verbatim>\<open>num_strings = 0\<close>) is out of bounds as well. The allocated
  bytes are taken to be zero; the two copies of \<open>Concat_sql\<close> overwrite all of them.
\<close>

definition memcpy_at :: "string \<Rightarrow> int \<Rightarrow> string \<Rightarrow> nat \<Rightarrow> error + string" where
  "memcpy_at dst off src n =
     (if 0 \<le> off \<and> nat off + n \<le> length dst \<and> n \<le> length src
      then Inr (take (nat off) dst @ take n src @ drop (nat off + n) dst)
      else Inl OutOfBounds)"

fun concat_size :: "nat list \<Rightarrow> nat \<Rightarrow> nat" where
  "concat_size concat_lengths 0 = 0"
| "concat_size concat_lengths (Suc i) =
     (concat_size concat_lengths i + (concat_lengths ! i + 2 ^ 32 - 1)) mod 2 ^ 32"

fun concat_copy :: "string list \<Rightarrow> nat list \<Rightarrow> nat \<Rightarrow> string \<Rightarrow> error + string" where
  "concat_copy concat_strings concat_lengths 0 new_str = Inr new_str"
| "concat_copy concat_strings concat_lengths (Suc k) new_str =
     (case concat_copy concat_strings concat_lengths k new_str of
        Inl e \<Rightarrow> Inl e
      | Inr b \<Rightarrow>
          memcpy_at b (int (concat_lengths ! k) - 1) (concat_strings ! Suc k)
            (concat_lengths ! Suc k))"

definition Concat ::
  "ExecutorContext \<Rightarrow> string list \<Rightarrow> nat list \<Rightarrow> nat \<Rightarrow>
     error + (ExecutorContext \<times> string \<times> nat)" where
  "Concat ctx concat_strings concat_lengths num_strings =
     (if num_strings = 0 \<or> length concat_strings < num_strings \<or>
         length concat_lengths < num_strings
      then Inl OutOfBounds
      else
        (let target_size = (concat_size concat_lengths num_strings + 1) mod 2 ^ 32;
             new_str = replicate target_size (CHR 0x00)
         in case memcpy_at new_str 0 (concat_strings ! 0) (concat_lengths ! 0) of
              Inl e \<Rightarrow> Inl e
            | Inr new_str \<Rightarrow>
                (case concat_copy concat_strings concat_lengths (num_strings - 1) new_str of
                   Inl e \<Rightarrow> Inl e
                 | Inr new_str \<Rightarrow> Inr (ctx @ [target_size], new_str, target_size))))"

text \<open>
  The wrappers. \<^verbatim>\<open>PL_ASSERT\<close> on the number of arguments is a branch of its own; each
  wrapper builds a fresh context (\<^verbatim>\<open>ctx{nullptr}\<close>, an empty allocation log) and returns
  the value together with that log, so that "the string operation was not invoked"
  is observable as "nothing was allocated".
\<close>

definition Upper_sql :: "Value list \<Rightarrow> error + (Value \<times> ExecutorContext)" where
  "Upper_sql args =
     (if length args \<noteq> 1 then Inl AssertionFailed
      else if IsNull (args ! 0) then Inr (GetNullValueByType VARCHAR, [])
      else (case Upper [] (GetAs (args ! 0)) (GetLength (args ! 0)) of
              (ctx, ret) \<Rightarrow> Inr (GetVarcharValue_cstr ret, ctx)))"

definition Lower_sql :: "Value list \<Rightarrow> error + (Value \<times> ExecutorContext)" where
  "Lower_sql args =
     (if length args \<noteq> 1 then Inl AssertionFailed
      else if IsNull (args ! 0) then Inr (GetNullValueByType VARCHAR, [])
      else (case Lower [] (GetAs (args ! 0)) (GetLength (args ! 0)) of
              (ctx, ret) \<Rightarrow> Inr (GetVarcharValue_cstr ret, ctx)))"

definition Concat_sql :: "Value list \<Rightarrow> error + (Value \<times> ExecutorContext)" where
  "Concat_sql args =
     (if length args \<noteq> 2 then Inl AssertionFailed
      else if IsNull (args ! 0) \<or> IsNull (args ! 1) then Inr (GetNullValueByType VARCHAR, [])
      else (case Concat [] [GetAs (args ! 0), GetAs (args ! 1)]
                   [GetLength (args ! 0), GetLength (args ! 1)] 2 of
              Inl e \<Rightarrow> Inl e
            | Inr (ctx, str, len) \<Rightarrow> Inr (GetVarcharValue_len str len, ctx)))"


text \<open>
  C9. \<open>Like\<close> is case-insensitive: matching a text against a pattern gives the same
  answer as matching the byte-wise lowercased text against the byte-wise lowercased
  pattern. (The wildcard and escape bytes are not letters, so lowercasing keeps the
  structure of the pattern, and every comparison of a pattern byte with a text byte
  applies the library's \<^verbatim>\<open>tolower\<close> to both, whose result is the same for a byte and for
  the lowercased byte.)
\<close>

theorem Like_case_insensitive:
  "Like t p = Like (map tolower t) (map tolower p)"
  by (rule Like_tolower_all(1))

lemma list_len2: "length (xs::'a list) = 2 \<Longrightarrow> \<exists>v w. xs = [v, w]"
  by (metis (no_types) One_nat_def Suc_1 length_0_conv length_Suc_conv)

lemma list_len1: "length (xs::'a list) = 1 \<Longrightarrow> \<exists>v. xs = [v]"
  by (simp add: length_Suc_conv)

text \<open>
  C10. The wrappers propagate NULL. Called with the number of arguments they assert
  (one for \<open>Upper_sql\<close> and \<open>Lower_sql\<close>, two for \<open>Concat_sql\<close>), they return the NULL of
  type VARCHAR, with nothing allocated (the string operation was not run), as soon as
  one argument is NULL; and with no NULL argument they return the VARCHAR made from
  the result of \<open>Upper\<close>, \<open>Lower\<close> and \<open>Concat\<close> on the arguments' bytes and lengths
  (for \<open>Concat_sql\<close>: whatever \<open>Concat\<close> returns, its failure included).
\<close>

theorem sql_wrappers_propagate_null:
  "(length args1 = 1 \<longrightarrow> (\<exists>v \<in> set args1. IsNull v) \<longrightarrow>
      Upper_sql args1 = Inr (GetNullValueByType VARCHAR, []) \<and>
      Lower_sql args1 = Inr (GetNullValueByType VARCHAR, [])) \<and>
   (length args2 = 2 \<longrightarrow> (\<exists>v \<in> set args2. IsNull v) \<longrightarrow>
      Concat_sql args2 = Inr (GetNullValueByType VARCHAR, [])) \<and>
   (length nargs1 = 1 \<longrightarrow> (\<forall>v \<in> set nargs1. \<not> IsNull v) \<longrightarrow>
      Upper_sql nargs1 =
        Inr (GetVarcharValue_cstr (snd (Upper [] (GetAs (nargs1 ! 0)) (GetLength (nargs1 ! 0)))),
             fst (Upper [] (GetAs (nargs1 ! 0)) (GetLength (nargs1 ! 0)))) \<and>
      Lower_sql nargs1 =
        Inr (GetVarcharValue_cstr (snd (Lower [] (GetAs (nargs1 ! 0)) (GetLength (nargs1 ! 0)))),
             fst (Lower [] (GetAs (nargs1 ! 0)) (GetLength (nargs1 ! 0))))) \<and>
   (length nargs2 = 2 \<longrightarrow> (\<forall>v \<in> set nargs2. \<not> IsNull v) \<longrightarrow>
      Concat_sql nargs2 =
        (case Concat [] [GetAs (nargs2 ! 0), GetAs (nargs2 ! 1)]
                [GetLength (nargs2 ! 0), GetLength (nargs2 ! 1)] 2 of
           Inl e \<Rightarrow> Inl e
         | Inr (ctx, str, len) \<Rightarrow> Inr (GetVarcharValue_len str len, ctx)))"
proof (intro conjI impI)
  assume "length args1 = 1" and "\<exists>v \<in> set args1. IsNull v"
  then obtain v where "args1 = [v]" "IsNull v"
    using list_len1 [of args1] by auto
  then show "Upper_sql args1 = Inr (GetNullValueByType VARCHAR, [])"
    and "Lower_sql args1 = Inr (GetNullValueByType VARCHAR, [])"
    by (simp_all add: Upper_sql_def Lower_sql_def)
next
  assume "length args2 = 2" and "\<exists>v \<in> set args2. IsNull v"
  then obtain v w where "args2 = [v, w]" "IsNull v \<or> IsNull w"
    using list_len2 [of args2] by auto
  then show "Concat_sql args2 = Inr (GetNullValueByType VARCHAR, [])"
    by (auto simp add: Concat_sql_def)
next
  assume "length nargs1 = 1" and "\<forall>v \<in> set nargs1. \<not> IsNull v"
  then obtain v where v: "nargs1 = [v]" "\<not> IsNull v"
    using list_len1 [of nargs1] by auto
  then show "Upper_sql nargs1 =
        Inr (GetVarcharValue_cstr (snd (Upper [] (GetAs (nargs1 ! 0)) (GetLength (nargs1 ! 0)))),
             fst (Upper [] (GetAs (nargs1 ! 0)) (GetLength (nargs1 ! 0))))"
    by (simp add: Upper_sql_def split: prod.splits)
  from v show "Lower_sql nargs1 =
        Inr (GetVarcharValue_cstr (snd (Lower [] (GetAs (nargs1 ! 0)) (GetLength (nargs1 ! 0)))),
             fst (Lower [] (GetAs (nargs1 ! 0)) (GetLength (nargs1 ! 0))))"
    by (simp add: Lower_sql_def split: prod.splits)
next
  assume "length nargs2 = 2" and "\<forall>v \<in> set nargs2. \<not> IsNull v"
  then obtain v w where "nargs2 = [v, w]" "\<not> IsNull v" "\<not> IsNull w"
    using list_len2 [of nargs2] by auto
  then show "Concat_sql nargs2 =
        (case Concat [] [GetAs (nargs2 ! 0), GetAs (nargs2 ! 1)]
                [GetLength (nargs2 ! 0), GetLength (nargs2 ! 1)] 2 of
           Inl e \<Rightarrow> Inl e
         | Inr (ctx, str, len) \<Rightarrow> Inr (GetVarcharValue_len str len, ctx))"
    by (simp add: Concat_sql_def)
qed


lemma char_of_eq_iff2: "c = char_of (n::nat) \<longleftrightarrow> of_char c = take_bit 8 n"
  using char_of_eq_iff [of n c] by auto

lemmas char_eval = char_of_eq_iff char_of_eq_iff2


lemma Concat_2:
  "Concat ctx [s0, s1] [l0, l1] 2 =
     (let target_size = (((l0 + 2 ^ 32 - 1) mod 2 ^ 32 + (l1 + 2 ^ 32 - 1)) mod 2 ^ 32 + 1) mod 2 ^ 32
      in case memcpy_at (replicate target_size (CHR 0x00)) 0 s0 l0 of
           Inl e \<Rightarrow> Inl e
         | Inr b \<Rightarrow>
             (case memcpy_at b (int l0 - 1) s1 l1 of
                Inl e \<Rightarrow> Inl e
              | Inr b' \<Rightarrow> Inr (ctx @ [target_size], b', target_size)))"
proof -
  have two: "(2::nat) = Suc (Suc 0)" by simp
  have "concat_size [l0, l1] 2 = ((l0 + 2 ^ 32 - 1) mod 2 ^ 32 + (l1 + 2 ^ 32 - 1)) mod 2 ^ 32"
    by (subst two) simp
  moreover have "concat_copy [s0, s1] [l0, l1] (2 - 1) b = memcpy_at b (int l0 - 1) s1 l1" for b
    by simp
  ultimately show ?thesis
    by (simp add: Concat_def Let_def cong: sum.case_cong)
qed

theorem sql_wrappers_propagate_null_witness:
  "Upper_sql [NullValue INTEGER] = Inr (NullValue VARCHAR, []) \<and>
   Lower_sql [NullValue INTEGER] = Inr (NullValue VARCHAR, []) \<and>
   Concat_sql [VarcharValue (''ab'' @ [CHR 0x00]), NullValue VARCHAR] = Inr (NullValue VARCHAR, []) \<and>
   Upper_sql [VarcharValue (''Ab'' @ [CHR 0x00])] = Inr (VarcharValue (''AB'' @ [CHR 0x00]), [3]) \<and>
   Lower_sql [VarcharValue (''Ab'' @ [CHR 0x00])] = Inr (VarcharValue (''ab'' @ [CHR 0x00]), [3]) \<and>
   Concat_sql [VarcharValue (''Ab'' @ [CHR 0x00]), VarcharValue (''cd'' @ [CHR 0x00])] =
     Inr (VarcharValue (''Abcd'' @ [CHR 0x00]), [5])"
  using sql_wrappers_propagate_null
    [of "[NullValue INTEGER]" "[VarcharValue (''ab'' @ [CHR 0x00]), NullValue VARCHAR]"
        "[VarcharValue (''Ab'' @ [CHR 0x00])]"
        "[VarcharValue (''Ab'' @ [CHR 0x00]), VarcharValue (''cd'' @ [CHR 0x00])]"]
  by (simp add: GetNullValueByType_def Upper_def Lower_def Concat_2 memcpy_at_def
      GetVarcharValue_len_def GetVarcharValue_cstr_def toupper_def tolower_def char_eval)

text \<open>
  The theorem at a text and a pattern with letters of both cases.
\<close>

theorem Like_case_insensitive_witness:
  "Like ''Hello_World'' ''h%O_w%'' \<and> Like ''hello_world'' ''h%o_w%''"
  using Like_case_insensitive [of "''Hello_World''" "''h%O_w%''"]
  by (simp add: tolower_def like_tail_def char_eval schar_def c_tolower_def to_schar_def)



text \<open>
  The comparison with \<^verbatim>\<open>firstpat\<close> at bytes outside ASCII: a byte from \<open>0x80\<close> to \<open>0xFE\<close>
  matches itself as a literal, but is never found by the scan after a \<^verbatim>\<open>%\<close>, where the
  library's result (\<open>233\<close> for \<open>0xE9\<close>) is compared with the \<^verbatim>\<open>char\<close> that was stored (\<open>-23\<close>);
  the byte \<open>0xFF\<close> is found, since it is \<open>-1\<close> on both sides. Lowercasing changes none of
  these bytes, so the answers for the lowercased text and pattern are the same.
\<close>

lemma Like_signed_firstpat:
  "Like [CHR 0xE9] [CHR 0xE9] \<and> \<not> Like [CHR 0xE9] [CHR ''%'', CHR 0xE9] \<and>
   Like [CHR 0xFF] [CHR ''%'', CHR 0xFF] \<and>
   tolower (CHR 0xE9) = CHR 0xE9 \<and> tolower (CHR 0xFF) = CHR 0xFF"
  by (simp add: tolower_def like_tail_def char_eval schar_def c_tolower_def to_schar_def)

text \<open>
  \<open>Concat_sql\<close> at a value of length 0: \<^verbatim>\<open>Concat\<close> copies the second string to the offset
  \<open>-1\<close> of the new buffer.
\<close>

lemma Concat_sql_zero_length:
  "Concat_sql [VarcharValue [], VarcharValue (''cd'' @ [CHR 0x00])] = Inl OutOfBounds"
  by (simp add: Concat_sql_def Concat_2 memcpy_at_def)


section \<open>The connection engine (src/network/network_connection.cpp)\<close>

text \<open>
  The connection is modelled by explicit state passing: a record of the members the
  functions at hand read and write, returned updated. What the environment decides (the
  outcome of each \<^verbatim>\<open>write\<close>, \<^verbatim>\<open>read\<close>, \<^verbatim>\<open>SSL_write\<close>, \<^verbatim>\<open>SSL_read\<close>, \<^verbatim>\<open>SSL_shutdown\<close> and
  \<^verbatim>\<open>close\<close>) is an input: a script of outcomes that the calls consume in order, or, for
  the two loops of \<^verbatim>\<open>CloseSocket\<close> that may run for ever, a function from the number of the
  call to its outcome. A run that needs more outcomes than the script holds ends in
  \<open>Inl ScriptExhausted\<close>. \<^verbatim>\<open>PL_ASSERT\<close> is taken as enabled: a failed assertion ends the
  run in \<open>Inl AssertionFailed\<close>. A copy (\<^verbatim>\<open>std::copy\<close>, \<^verbatim>\<open>memmove\<close>) that leaves the bounds of a
  buffer or of a payload, which is undefined behaviour of the source, ends it in
  \<open>Inl OutOfBounds\<close>. A system call that is handed an address range beyond the end of the
  write buffer does not fail: it sends what it finds there, and the indices move on.
  The bytes handed to the peer are collected in \<open>sock_out\<close>.
\<close>

subsection \<open>Buffers, packets and the connection record\<close>

text \<open>
  Modelled from the spec: \<^verbatim>\<open>Buffer\<close> is declared outside the files at hand. The source uses
  its members \<^verbatim>\<open>buf_ptr\<close>, \<^verbatim>\<open>buf_size\<close>, \<^verbatim>\<open>buf_flush_ptr\<close> (of type \<^verbatim>\<open>size_t\<close>) and \<^verbatim>\<open>buf\<close>,
  and its functions \<^verbatim>\<open>Reset\<close>, \<^verbatim>\<open>GetMaxSize\<close>, \<^verbatim>\<open>GetPtr\<close>, \<^verbatim>\<open>IsReadDataAvailable\<close> and
  \<^verbatim>\<open>GetUInt32BigEndian\<close>. The specification describes a byte region of fixed maximum
  size \<^verbatim>\<open>CAP\<close> with the indices \<^verbatim>\<open>cursor\<close>, \<^verbatim>\<open>committed\<close> and \<^verbatim>\<open>flush_cursor\<close>, a \<^verbatim>\<open>reset()\<close>
  that puts all indices to zero, and a \<^verbatim>\<open>read_u32_be\<close> that needs four available bytes.
  The maximum size (\<^verbatim>\<open>SOCKET_BUFFER_SIZE\<close>, whose value the files at hand do not give) is
  the parameter \<open>cap\<close> of every function that calls \<^verbatim>\<open>GetMaxSize\<close>; a buffer in use has
  \<open>length (buf b) = cap\<close>.
\<close>

type_synonym uchar = "8 word"

record Buffer =
  buf_ptr :: nat
  buf_size :: nat
  buf_flush_ptr :: nat
  buf :: "uchar list"

definition Buffer_Reset :: "Buffer \<Rightarrow> Buffer" where
  "Buffer_Reset b = b\<lparr>buf_ptr := 0, buf_size := 0, buf_flush_ptr := 0\<rparr>"

text \<open>
  Indices are natural numbers. The one operation on them that can wrap in the source
  is the subtraction \<^verbatim>\<open>GetMaxSize() - buf_ptr\<close> in \<^verbatim>\<open>size_t\<close>; \<open>sub_size_t\<close> writes the
  wrap-around of a 64-bit \<^verbatim>\<open>size_t\<close> out. \<open>copy_range src first n dst pos\<close> is
  \<^verbatim>\<open>std::copy(src + first, src + first + n, dst + pos)\<close> (and \<^verbatim>\<open>memmove\<close>, since the source
  range is read before the target is built); it fails when either range leaves its
  container.
\<close>

definition sub_size_t :: "nat \<Rightarrow> nat \<Rightarrow> nat" where
  "sub_size_t a b = (if b \<le> a then a - b else a + 2 ^ 64 - b)"

definition copy_range :: "uchar list \<Rightarrow> nat \<Rightarrow> nat \<Rightarrow> uchar list \<Rightarrow> nat \<Rightarrow> error + uchar list" where
  "copy_range src first n dst pos =
     (if first + n \<le> length src \<and> pos + n \<le> length dst
      then Inr (take pos dst @ take n (drop first src) @ drop (pos + n) dst)
      else Inl OutOfBounds)"

text \<open>
  Modelled from the spec: \<^verbatim>\<open>OutputPacket\<close> is declared outside the files at hand. The
  source uses its members \<^verbatim>\<open>buf\<close> (here \<open>pkt_buf\<close>), \<^verbatim>\<open>len\<close>, \<^verbatim>\<open>msg_type\<close>,
  \<^verbatim>\<open>skip_header_write\<close> and \<^verbatim>\<open>write_ptr\<close>; the specification lists them as payload, length
  (payload bytes only), type, \<^verbatim>\<open>skip_header\<close> and \<^verbatim>\<open>write_cursor\<close>.
\<close>

record OutputPacket =
  pkt_buf :: "uchar list"
  len :: nat
  msg_type :: uchar
  skip_header_write :: bool
  write_ptr :: nat

text \<open>
  Outcomes of the system calls and of the TLS library. \<open>SysOk n\<close> of a \<^verbatim>\<open>write\<close> says that
  the socket is ready to take \<open>n\<close> bytes (the call then returns the smaller of \<open>n\<close> and the
  number of bytes offered); \<open>SysOk data\<close> of a \<^verbatim>\<open>read\<close> holds the bytes the peer has sent
  (the call stores as many of them as the buffer has room for), the empty list being
  end of file. \<open>SysFailed e\<close> is the result \<open>-1\<close> with \<^verbatim>\<open>errno\<close> \<open>e\<close>. For the TLS calls the
  constructors are the values of \<^verbatim>\<open>SSL_get_error\<close>: \<open>SslOk\<close> is \<^verbatim>\<open>SSL_ERROR_NONE\<close>, \<open>SslFatal\<close>
  every value the source leaves to \<^verbatim>\<open>default\<close>.
\<close>

datatype errno = EINTR | EAGAIN | EWOULDBLOCK | EBADF | EPIPE | EIO | ECONNRESET

datatype 'a sys_io = SysOk 'a | SysFailed errno

datatype 'a ssl_io = SslOk 'a | SslZeroReturn | SslWantRead | SslWantWrite | SslSyscall errno | SslFatal

text \<open>
  An event of the event loop is its flags and whether it is registered (pending). The
  connection owns one network event and one manual event for the wake-up by the query
  engine. \<^verbatim>\<open>ConnState\<close>, \<^verbatim>\<open>WriteState\<close>, \<^verbatim>\<open>Transition\<close> and \<^verbatim>\<open>ProcessResult\<close> are enumerations
  declared outside the files at hand; they have the values the source and the
  specification name.
\<close>

datatype ev_flag = EV_READ | EV_WRITE | EV_PERSIST

record event =
  ev_flags :: "ev_flag set"
  ev_pending :: bool

datatype ConnState =
  CONN_READ | CONN_PROCESS | CONN_WRITE | CONN_WAIT_RESULT | CONN_CLOSING | CONN_CLOSED

datatype WriteState = WRITE_COMPLETE | WRITE_NOT_READY | WRITE_ERROR

datatype Transition = NONE | PROCEED | NEED_DATA | GET_RESULT | NOT_READY | FINISH | ERROR

text \<open>
  Modelled from the spec: \<^verbatim>\<open>InputPacket\<close> is declared outside the files at hand. The source
  uses its members \<^verbatim>\<open>len\<close> (a \<^verbatim>\<open>size_t\<close>, here a 64-bit word \<open>in_len\<close>), \<^verbatim>\<open>is_extended\<close>,
  \<^verbatim>\<open>header_parsed\<close>, \<^verbatim>\<open>is_initialized\<close>, and its functions \<^verbatim>\<open>ReserveExtendedBuffer\<close> and
  \<^verbatim>\<open>Reset\<close>. Following the specification ("if \<^verbatim>\<open>payload_length > CAP\<close>, allocate an extended
  payload buffer"), \<open>extended_reserved\<close> records the size for which the extended buffer
  was reserved, if it was.
\<close>

record InputPacket =
  in_len :: "64 word"
  is_extended :: bool
  header_parsed :: bool
  is_initialized :: bool
  extended_reserved :: "64 word option"

text \<open>
  The members of \<^verbatim>\<open>NetworkConnection\<close> that the functions at hand use. \<open>responses\<close> and
  \<open>flush_flag\<close> belong to the protocol handler, \<open>protocol_handler\<close> says whether the pointer
  to it is set, \<open>conn_SSL_context\<close> whether a TLS session exists. The last eight fields are
  not members of the class: the bytes handed to the peer, the memory that follows the
  write buffer, the scripts of the outcomes to come, and the numbers of calls of
  \<^verbatim>\<open>SSL_shutdown\<close> and of \<^verbatim>\<open>close\<close> made so far.
\<close>

record NetworkConnection =
  rbuf :: Buffer
  wbuf :: Buffer
  responses :: "OutputPacket list"
  next_response :: nat
  flush_flag :: bool
  protocol_handler :: bool
  finish_startup_packet :: bool
  initial_packet :: InputPacket
  ssl_sent :: bool
  ssl_handshake :: bool
  conn_SSL_context :: bool
  read_blocked :: bool
  read_blocked_on_write :: bool
  write_blocked :: bool
  write_blocked_on_read :: bool
  network_event :: event
  workpool_event :: event
  state :: ConnState
  sock_out :: "uchar list"
  wbuf_after :: "nat \<Rightarrow> uchar"
  write_script :: "nat sys_io list"
  ssl_write_script :: "nat ssl_io list"
  read_script :: "uchar list sys_io list"
  ssl_read_script :: "uchar list ssl_io list"
  shutdown_calls :: nat
  close_calls :: nat

subsection \<open>Writing: \<^verbatim>\<open>FlushWriteBuffer\<close>, \<^verbatim>\<open>BufferWriteBytesHeader\<close>, \<^verbatim>\<open>BufferWriteBytesContent\<close>, \<^verbatim>\<open>WritePackets\<close>\<close>

text \<open>
  \<^verbatim>\<open>UpdateEvent\<close> unregisters the network event and registers it again with the new
  flags; it always returns true. \<open>socket_send k\<close> is a call of \<^verbatim>\<open>write\<close> or \<^verbatim>\<open>SSL_write\<close> that
  took \<open>k\<close> bytes from \<^verbatim>\<open>&wbuf_.buf[wbuf_.buf_flush_ptr]\<close>, with the book-keeping that follows
  it: \<^verbatim>\<open>buf_flush_ptr += written_bytes; buf_size -= written_bytes\<close>. Neither the call nor
  the book-keeping tests the indices against the size of the buffer: \<open>wire_bytes\<close> are the
  \<open>k\<close> bytes that the call finds at the address it is given, which are bytes of the
  buffer as far as the buffer goes and, beyond its end, bytes of the memory that
  follows it (\<open>wbuf_after\<close>, about which the model assumes nothing).
\<close>

definition UpdateEvent :: "ev_flag set \<Rightarrow> NetworkConnection \<Rightarrow> NetworkConnection" where
  "UpdateEvent flags c = c\<lparr>network_event := \<lparr>ev_flags = flags, ev_pending = True\<rparr>\<rparr>"

definition wire_bytes :: "uchar list \<Rightarrow> (nat \<Rightarrow> uchar) \<Rightarrow> nat \<Rightarrow> nat \<Rightarrow> uchar list" where
  "wire_bytes b after pos k =
     map (\<lambda>i. if i < length b then b ! i else after (i - length b)) [pos ..< pos + k]"

definition socket_send :: "nat \<Rightarrow> NetworkConnection \<Rightarrow> NetworkConnection" where
  "socket_send k c =
     (let w = wbuf c in
      c\<lparr>sock_out := sock_out c @ wire_bytes (buf w) (wbuf_after c) (buf_flush_ptr w) k,
        wbuf := w\<lparr>buf_flush_ptr := buf_flush_ptr w + k, buf_size := buf_size w - k\<rparr>\<rparr>)"

text \<open>
  The two loops of \<^verbatim>\<open>FlushWriteBuffer\<close>, one round of the loop per recursive call. Both run
  while \<^verbatim>\<open>wbuf_.buf_size > 0\<close> and offer \<^verbatim>\<open>buf_size\<close> bytes from \<^verbatim>\<open>buf_flush_ptr\<close> on, so
  \<^verbatim>\<open>buf_size\<close> is here the number of bytes still to send. On a plain socket \<^verbatim>\<open>EINTR\<close> and a
  result of 0 try again, \<^verbatim>\<open>EAGAIN\<close> and \<^verbatim>\<open>EWOULDBLOCK\<close> rearm the event for writing. The
  source returns \<^verbatim>\<open>Transition::NOT_READY\<close> and \<^verbatim>\<open>Transition::ERROR\<close> there, from a function
  of result type \<^verbatim>\<open>WriteState\<close> whose callers test for \<^verbatim>\<open>WRITE_NOT_READY\<close> and
  \<^verbatim>\<open>WRITE_ERROR\<close>; these are the values the model returns (the specification names
  the result of a flush that would block both \<^verbatim>\<open>NOT_READY\<close> and \<^verbatim>\<open>WRITE_NOT_READY\<close>). When
  nothing is left the buffer is reset. Both functions terminate because each round
  consumes an outcome.
\<close>

function flush_plain :: "NetworkConnection \<Rightarrow> error + (WriteState \<times> NetworkConnection)" where
  "flush_plain c =
     (if buf_size (wbuf c) > 0 then
        (case write_script c of
           [] \<Rightarrow> Inl ScriptExhausted
         | r # rest \<Rightarrow>
             (case r of
                SysFailed e \<Rightarrow>
                  if e = EINTR then flush_plain (c\<lparr>write_script := rest\<rparr>)
                  else if e = EAGAIN \<or> e = EWOULDBLOCK then
                    Inr (WRITE_NOT_READY, UpdateEvent {EV_WRITE, EV_PERSIST} (c\<lparr>write_script := rest\<rparr>))
                  else Inr (WRITE_ERROR, c\<lparr>write_script := rest\<rparr>)
              | SysOk n \<Rightarrow>
                  (let written_bytes = min n (buf_size (wbuf c)) in
                   if written_bytes = 0 then flush_plain (c\<lparr>write_script := rest\<rparr>)
                   else flush_plain (socket_send written_bytes (c\<lparr>write_script := rest\<rparr>)))))
      else Inr (WRITE_COMPLETE, c\<lparr>wbuf := Buffer_Reset (wbuf c)\<rparr>))"
  by pat_completeness auto
termination
  by (relation "measure (\<lambda>c. length (write_script c))")
     (auto simp: socket_send_def Let_def split: if_splits)


function flush_ssl :: "NetworkConnection \<Rightarrow> error + (WriteState \<times> NetworkConnection)" where
  "flush_ssl c =
     (if buf_size (wbuf c) > 0 then
        (case ssl_write_script c of
           [] \<Rightarrow> Inl ScriptExhausted
         | r # rest \<Rightarrow>
             (let c = c\<lparr>ssl_write_script := rest, write_blocked := False,
                         write_blocked_on_read := False\<rparr> in
              case r of
                SslOk n \<Rightarrow> flush_ssl (socket_send (min n (buf_size (wbuf c))) c)
              | SslWantWrite \<Rightarrow> Inr (WRITE_NOT_READY, c\<lparr>write_blocked := True\<rparr>)
              | SslWantRead \<Rightarrow> Inr (WRITE_NOT_READY, c\<lparr>write_blocked_on_read := True\<rparr>)
              | SslSyscall e \<Rightarrow> if e = EINTR then flush_ssl c else Inr (WRITE_ERROR, c)
              | _ \<Rightarrow> Inr (WRITE_ERROR, c)))
      else Inr (WRITE_COMPLETE, c\<lparr>wbuf := Buffer_Reset (wbuf c)\<rparr>))"
  by pat_completeness auto
termination
  by (relation "measure (\<lambda>c. length (ssl_write_script c))")
     (auto simp: socket_send_def Let_def split: if_splits)

definition FlushWriteBuffer :: "NetworkConnection \<Rightarrow> error + (WriteState \<times> NetworkConnection)" where
  "FlushWriteBuffer c = (if conn_SSL_context c then flush_ssl c else flush_plain c)"

text \<open>
  \<open>htonl_bytes n\<close> is the four bytes of \<^verbatim>\<open>htonl(n)\<close> in memory order, most significant
  first, of \<open>n\<close> cut to 32 bits by the assignment to \<^verbatim>\<open>int len_nb\<close>.
  \<^verbatim>\<open>BufferWriteBytesHeader\<close> returns at once when the header was written before, flushes
  when fewer than five bytes are free, writes the type byte unless it is 0, writes the
  length only \<^verbatim>\<open>if (finish_startup_packet_)\<close>, and sets \<^verbatim>\<open>buf_size\<close> to \<^verbatim>\<open>buf_ptr\<close>.
\<close>

definition htonl_bytes :: "nat \<Rightarrow> uchar list" where
  "htonl_bytes n =
     (let v = n mod 2 ^ 32
      in [of_nat (v div 2 ^ 24), of_nat (v div 2 ^ 16), of_nat (v div 2 ^ 8), of_nat v])"

definition BufferWriteBytesHeader ::
  "nat \<Rightarrow> OutputPacket \<Rightarrow> NetworkConnection \<Rightarrow>
     error + (WriteState \<times> OutputPacket \<times> NetworkConnection)" where
  "BufferWriteBytesHeader cap pkt c =
     (if skip_header_write pkt then Inr (WRITE_COMPLETE, pkt, c)
      else
        (case (if sub_size_t cap (buf_ptr (wbuf c)) < 1 + 4 then FlushWriteBuffer c
               else Inr (WRITE_COMPLETE, c)) of
           Inl e \<Rightarrow> Inl e
         | Inr (result, c) \<Rightarrow>
             if result = WRITE_NOT_READY \<or> result = WRITE_ERROR then Inr (result, pkt, c)
             else
               (let header = (if msg_type pkt \<noteq> 0 then [msg_type pkt] else []) @
                             (if finish_startup_packet c then htonl_bytes (len pkt + 4) else [])
                in case copy_range header 0 (length header) (buf (wbuf c)) (buf_ptr (wbuf c)) of
                     Inl e \<Rightarrow> Inl e
                   | Inr b \<Rightarrow>
                       Inr (WRITE_COMPLETE, pkt\<lparr>skip_header_write := True\<rparr>,
                            c\<lparr>wbuf := (wbuf c)\<lparr>buf := b,
                                      buf_ptr := buf_ptr (wbuf c) + length header,
                                      buf_size := buf_ptr (wbuf c) + length header\<rparr>\<rparr>))))"

text \<open>
  The loop \<^verbatim>\<open>while (len)\<close> of \<^verbatim>\<open>BufferWriteBytesContent\<close>; \<open>len'\<close> is the local \<^verbatim>\<open>len\<close>, which the
  function initialises with \<^verbatim>\<open>pkt->len\<close> on every entry. When the rest fits into the
  window it is copied, \<^verbatim>\<open>buf_ptr\<close> moves and the packet's \<^verbatim>\<open>write_ptr\<close> does not. Otherwise
  \<^verbatim>\<open>window\<close> bytes are copied to \<^verbatim>\<open>buf_ptr\<close>, the packet's \<^verbatim>\<open>write_ptr\<close> moves, \<^verbatim>\<open>buf_ptr\<close> does
  not, \<^verbatim>\<open>buf_size\<close> becomes the maximum size and the buffer is flushed. The loop has no
  bound of its own (with a buffer of size 0 it never ends), hence the option: \<open>None\<close> is
  a loop that runs for ever, which \<open>BufferWriteBytesContent\<close> reports as
  \<open>Inl NonTermination\<close>.
\<close>

partial_function (option) content_loop ::
  "nat \<Rightarrow> nat \<Rightarrow> OutputPacket \<Rightarrow> NetworkConnection \<Rightarrow>
     (error + (WriteState \<times> OutputPacket \<times> NetworkConnection)) option" where
  "content_loop cap len' pkt c =
     (if len' = 0 then Some (Inr (WRITE_COMPLETE, pkt, c))
      else if len' \<le> sub_size_t cap (buf_ptr (wbuf c)) then
        (case copy_range (pkt_buf pkt) (write_ptr pkt) len' (buf (wbuf c)) (buf_ptr (wbuf c)) of
           Inl e \<Rightarrow> Some (Inl e)
         | Inr b \<Rightarrow>
             Some (Inr (WRITE_COMPLETE, pkt,
                        c\<lparr>wbuf := (wbuf c)\<lparr>buf := b, buf_ptr := buf_ptr (wbuf c) + len',
                                  buf_size := buf_ptr (wbuf c) + len'\<rparr>\<rparr>)))
      else
        (case copy_range (pkt_buf pkt) (write_ptr pkt) (sub_size_t cap (buf_ptr (wbuf c)))
                (buf (wbuf c)) (buf_ptr (wbuf c)) of
           Inl e \<Rightarrow> Some (Inl e)
         | Inr b \<Rightarrow>
             (case FlushWriteBuffer (c\<lparr>wbuf := (wbuf c)\<lparr>buf := b, buf_size := cap\<rparr>\<rparr>) of
                Inl e \<Rightarrow> Some (Inl e)
              | Inr (result, c') \<Rightarrow>
                  if result = WRITE_NOT_READY \<or> result = WRITE_ERROR
                  then Some (Inr (result,
                         pkt\<lparr>write_ptr := write_ptr pkt + sub_size_t cap (buf_ptr (wbuf c))\<rparr>, c'))
                  else content_loop cap (len' - sub_size_t cap (buf_ptr (wbuf c)))
                         (pkt\<lparr>write_ptr := write_ptr pkt + sub_size_t cap (buf_ptr (wbuf c))\<rparr>) c')))"

declare content_loop.simps [code]

definition BufferWriteBytesContent ::
  "nat \<Rightarrow> OutputPacket \<Rightarrow> NetworkConnection \<Rightarrow>
     error + (WriteState \<times> OutputPacket \<times> NetworkConnection)" where
  "BufferWriteBytesContent cap pkt c =
     (case content_loop cap (len pkt) pkt c of None \<Rightarrow> Inl NonTermination | Some r \<Rightarrow> r)"

text \<open>
  The loop of \<^verbatim>\<open>WritePackets\<close> over the responses from \<^verbatim>\<open>next_response_\<close> on. The packets are
  updated in place through the pointer \<^verbatim>\<open>pkt\<close>, so the loop returns the queue as it has
  become. \<^verbatim>\<open>WritePackets\<close> first flushes when a TLS write was blocked (ignoring the
  result), and after the last packet clears the queue and flushes if the handler's flush
  flag is set.
\<close>

function write_loop ::
  "nat \<Rightarrow> OutputPacket list \<Rightarrow> nat \<Rightarrow> NetworkConnection \<Rightarrow>
     error + (WriteState \<times> OutputPacket list \<times> nat \<times> NetworkConnection)" where
  "write_loop cap pkts i c =
     (if i < length pkts then
        (case BufferWriteBytesHeader cap (pkts ! i) c of
           Inl e \<Rightarrow> Inl e
         | Inr (result, pkt, c') \<Rightarrow>
             if result = WRITE_NOT_READY \<or> result = WRITE_ERROR
             then Inr (result, pkts[i := pkt], i, c')
             else
               (case BufferWriteBytesContent cap pkt c' of
                  Inl e \<Rightarrow> Inl e
                | Inr (result, pkt', c'') \<Rightarrow>
                    if result = WRITE_NOT_READY \<or> result = WRITE_ERROR
                    then Inr (result, pkts[i := pkt'], i, c'')
                    else write_loop cap (pkts[i := pkt']) (i + 1) c''))
      else Inr (WRITE_COMPLETE, pkts, i, c))"
  by pat_completeness auto
termination
  by (relation "measure (\<lambda>(cap, pkts, i, c). length pkts - i)") auto

definition WritePackets :: "nat \<Rightarrow> NetworkConnection \<Rightarrow> error + (WriteState \<times> NetworkConnection)" where
  "WritePackets cap c =
     (case (if write_blocked c then FlushWriteBuffer c else Inr (WRITE_COMPLETE, c)) of
        Inl e \<Rightarrow> Inl e
      | Inr (_, c) \<Rightarrow>
          (case write_loop cap (responses c) (next_response c) c of
             Inl e \<Rightarrow> Inl e
           | Inr (result, pkts, i, c) \<Rightarrow>
               if result = WRITE_NOT_READY \<or> result = WRITE_ERROR
               then Inr (result, c\<lparr>responses := pkts, next_response := i\<rparr>)
               else
                 (let c = c\<lparr>responses := [], next_response := 0\<rparr> in
                  if flush_flag c then FlushWriteBuffer c
                  else Inr (WRITE_COMPLETE, c\<lparr>flush_flag := False\<rparr>))))"


declare flush_plain.simps [simp del] flush_ssl.simps [simp del] write_loop.simps [simp del]

subsection \<open>What the write path preserves\<close>

text \<open>
  \<open>flush_indep g\<close>: the observation \<open>g\<close> of a connection does not depend on the fields a
  flush may write. \<open>flush_rel c r c'\<close> relates a connection to the one a flush with result
  \<open>r\<close> leaves: the bytes of the buffer stay, a registered event stays registered, a
  complete flush has sent the \<^verbatim>\<open>buf_size\<close> bytes from \<^verbatim>\<open>buf_flush_ptr\<close> on and reset the
  indices, an incomplete one has sent a part of them and moved \<^verbatim>\<open>buf_flush_ptr\<close> and
  \<^verbatim>\<open>buf_size\<close> by the same amount in opposite directions.
\<close>

definition flush_indep :: "(NetworkConnection \<Rightarrow> 'a) \<Rightarrow> bool" where
  "flush_indep g \<longleftrightarrow>
     (\<forall>c v. g (c\<lparr>wbuf := v\<rparr>) = g c) \<and> (\<forall>c v. g (c\<lparr>sock_out := v\<rparr>) = g c) \<and>
     (\<forall>c v. g (c\<lparr>write_script := v\<rparr>) = g c) \<and> (\<forall>c v. g (c\<lparr>ssl_write_script := v\<rparr>) = g c) \<and>
     (\<forall>c v. g (c\<lparr>write_blocked := v\<rparr>) = g c) \<and> (\<forall>c v. g (c\<lparr>write_blocked_on_read := v\<rparr>) = g c) \<and>
     (\<forall>c v. g (c\<lparr>network_event := v\<rparr>) = g c)"

lemma flush_indep_fields:
  "flush_indep rbuf" "flush_indep responses" "flush_indep next_response" "flush_indep flush_flag"
  "flush_indep finish_startup_packet" "flush_indep conn_SSL_context" "flush_indep state"
  "flush_indep read_blocked" "flush_indep read_blocked_on_write" "flush_indep read_script"
  "flush_indep ssl_read_script" "flush_indep workpool_event" "flush_indep protocol_handler"
  "flush_indep ssl_handshake" "flush_indep shutdown_calls" "flush_indep close_calls"
  "flush_indep initial_packet" "flush_indep ssl_sent"
  by (simp_all add: flush_indep_def)



lemma wire_bytes_in_bounds:
  assumes "pos + k \<le> length b"
  shows "wire_bytes b after pos k = take k (drop pos b)"
proof (rule nth_equalityI)
  show "length (wire_bytes b after pos k) = length (take k (drop pos b))"
    using assms by (simp add: wire_bytes_def)
next
  fix i
  assume "i < length (wire_bytes b after pos k)"
  then have i: "i < k" by (simp add: wire_bytes_def)
  with assms have "pos + i < length b" by simp
  with i show "wire_bytes b after pos k ! i = take k (drop pos b) ! i"
    by (simp add: wire_bytes_def)
qed


lemma wire_bytes_0 [simp]: "wire_bytes b after pos 0 = []"
  by (simp add: wire_bytes_def)

lemma length_wire_bytes [simp]: "length (wire_bytes b after pos k) = k"
  by (simp add: wire_bytes_def)











text \<open>
  \<open>wbuf_ok\<close> is what the write path maintains of the indices of the write buffer:
  \<^verbatim>\<open>buf_ptr\<close> and \<^verbatim>\<open>buf_size\<close> are at most the size of the buffer. No order between the
  three indices holds throughout, and \<^verbatim>\<open>buf_flush_ptr\<close> has no bound (see the claims
  below). A write buffer is \<open>clean\<close> when nothing of it has been sent and
  \<^verbatim>\<open>buf_size\<close> equals \<^verbatim>\<open>buf_ptr\<close>, the state between two packets when no flush is pending. The
  \<open>stream\<close> of a connection is the bytes sent followed by the bytes buffered: what the
  peer will have received once the buffer is flushed. \<open>header_bytes\<close> is the header
  that \<^verbatim>\<open>BufferWriteBytesHeader\<close> writes for a packet.
\<close>

definition wbuf_ok :: "nat \<Rightarrow> Buffer \<Rightarrow> bool" where
  "wbuf_ok cap w \<longleftrightarrow> buf_ptr w \<le> cap \<and> buf_size w \<le> cap \<and> length (buf w) = cap"



definition header_bytes :: "bool \<Rightarrow> OutputPacket \<Rightarrow> uchar list" where
  "header_bytes startup_done pkt =
     (if msg_type pkt \<noteq> 0 then [msg_type pkt] else []) @
     (if startup_done then htonl_bytes (len pkt + 4) else [])"

lemma length_htonl_bytes [simp]: "length (htonl_bytes n) = 4"
  by (simp add: htonl_bytes_def Let_def)




lemma copy_range_Inr:
  assumes "copy_range src first n dst pos = Inr b"
  shows "length b = length dst" and "pos + n \<le> length dst" and "first + n \<le> length src"
    and "take (pos + n) b = take pos dst @ take n (drop first src)"
    and "b = take pos dst @ take n (drop first src) @ drop (pos + n) dst"
  using assms by (auto simp: copy_range_def split: if_splits)



















text \<open>
  The same for \<^verbatim>\<open>WritePackets\<close> as a whole; \<open>write_indep g\<close> adds to \<open>flush_indep g\<close> the fields
  that only \<^verbatim>\<open>WritePackets\<close> itself writes.
\<close>

definition write_inv ::
  "(NetworkConnection \<Rightarrow> 'a) \<Rightarrow> nat \<Rightarrow> NetworkConnection \<Rightarrow> NetworkConnection \<Rightarrow> bool" where
  "write_inv g cap c c' \<longleftrightarrow>
     (wbuf_ok cap (wbuf c) \<longrightarrow> wbuf_ok cap (wbuf c')) \<and>
     (flush_indep g \<longrightarrow> g c' = g c) \<and>
     (ev_pending (network_event c) \<longrightarrow> ev_pending (network_event c'))"

lemma write_inv_refl [simp]: "write_inv g cap c c"
  by (simp add: write_inv_def)


























subsection \<open>Reading: \<^verbatim>\<open>FillReadBuffer\<close> and \<^verbatim>\<open>ReadStartupPacketHeader\<close>\<close>

text \<open>
  \<open>fill_prepare\<close> is the part of \<^verbatim>\<open>FillReadBuffer\<close> before its loop, guarded by
  \<^verbatim>\<open>!GetReadBlocked()\<close>: reset the buffer when all of it has been consumed, assert
  \<^verbatim>\<open>buf_ptr <= buf_size\<close>, and move the unread rest to the front when the buffer is full
  and not all of it has been consumed. \<open>store_read\<close> is a successful read into
  \<^verbatim>\<open>GetPtr(buf_size)\<close> of at most \<^verbatim>\<open>GetMaxSize() - buf_size\<close> bytes followed by
  \<^verbatim>\<open>buf_size += bytes_read\<close>. \<open>fill_loop\<close> is the loop \<^verbatim>\<open>while (done == false)\<close>, one round per
  recursive call, with the local \<^verbatim>\<open>result\<close> as an argument; it terminates because each
  round consumes an outcome.
\<close>

definition fill_prepare :: "nat \<Rightarrow> NetworkConnection \<Rightarrow> error + NetworkConnection" where
  "fill_prepare cap c =
     (if \<not> read_blocked c then
        (let r = (if buf_ptr (rbuf c) = buf_size (rbuf c) then Buffer_Reset (rbuf c) else rbuf c)
         in if \<not> buf_ptr r \<le> buf_size r then Inl AssertionFailed
            else if buf_ptr r < buf_size r \<and> buf_size r = cap then
              (case copy_range (buf r) (buf_ptr r) (buf_size r - buf_ptr r) (buf r) 0 of
                 Inl e \<Rightarrow> Inl e
               | Inr b \<Rightarrow>
                   Inr (c\<lparr>rbuf := r\<lparr>buf := b, buf_ptr := 0, buf_size := buf_size r - buf_ptr r\<rparr>\<rparr>))
            else Inr (c\<lparr>rbuf := r\<rparr>))
      else Inr c)"

definition store_read :: "nat \<Rightarrow> uchar list \<Rightarrow> Buffer \<Rightarrow> error + Buffer" where
  "store_read cap data r =
     (let bytes_read = min (length data) (sub_size_t cap (buf_size r))
      in case copy_range data 0 bytes_read (buf r) (buf_size r) of
           Inl e \<Rightarrow> Inl e
         | Inr b \<Rightarrow> Inr (r\<lparr>buf := b, buf_size := buf_size r + bytes_read\<rparr>))"

function fill_loop ::
  "nat \<Rightarrow> Transition \<Rightarrow> NetworkConnection \<Rightarrow> error + (Transition \<times> NetworkConnection)" where
  "fill_loop cap result c =
     (if buf_size (rbuf c) = cap then Inr (result, c)
      else if conn_SSL_context c then
        (case ssl_read_script c of
           [] \<Rightarrow> Inl ScriptExhausted
         | r # rest \<Rightarrow>
             (let c = c\<lparr>ssl_read_script := rest, read_blocked_on_write := False,
                         read_blocked := False\<rparr> in
              case r of
                SslOk data \<Rightarrow>
                  (case store_read cap data (rbuf c) of
                     Inl e \<Rightarrow> Inl e
                   | Inr b \<Rightarrow> fill_loop cap PROCEED (c\<lparr>rbuf := b\<rparr>))
              | SslZeroReturn \<Rightarrow> Inr (FINISH, c)
              | SslWantRead \<Rightarrow> Inr (NEED_DATA, c\<lparr>read_blocked := True\<rparr>)
              | SslWantWrite \<Rightarrow> Inr (NEED_DATA, c\<lparr>read_blocked_on_write := True\<rparr>)
              | SslSyscall e \<Rightarrow> if e = EINTR then fill_loop cap result c else Inr (ERROR, c)
              | SslFatal \<Rightarrow> Inr (ERROR, c)))
      else
        (case read_script c of
           [] \<Rightarrow> Inl ScriptExhausted
         | r # rest \<Rightarrow>
             (let c = c\<lparr>read_script := rest\<rparr> in
              case r of
                SysOk data \<Rightarrow>
                  if data = [] then Inr (FINISH, c)
                  else (case store_read cap data (rbuf c) of
                          Inl e \<Rightarrow> Inl e
                        | Inr b \<Rightarrow> fill_loop cap PROCEED (c\<lparr>rbuf := b\<rparr>))
              | SysFailed e \<Rightarrow>
                  if e = EAGAIN \<or> e = EWOULDBLOCK then Inr (result, c)
                  else if e = EINTR then fill_loop cap result c
                  else Inr (ERROR, c))))"
  by pat_completeness auto
termination
  by (relation "measure (\<lambda>(cap, result, c). length (ssl_read_script c) + length (read_script c))")
     auto

declare fill_loop.simps [simp del]

definition FillReadBuffer :: "nat \<Rightarrow> NetworkConnection \<Rightarrow> error + (Transition \<times> NetworkConnection)" where
  "FillReadBuffer cap c =
     (case fill_prepare cap c of Inl e \<Rightarrow> Inl e | Inr c' \<Rightarrow> fill_loop cap NEED_DATA c')"

text \<open>
  Modelled from the spec: \<^verbatim>\<open>IsReadDataAvailable\<close> and \<^verbatim>\<open>GetUInt32BigEndian\<close> are functions of
  \<^verbatim>\<open>Buffer\<close>, declared outside the files at hand. By the specification \<^verbatim>\<open>read_u32_be\<close> "fails
  with \<^verbatim>\<open>SHORT_BUFFER\<close> when \<^verbatim>\<open>available_read() < 4\<close>", available being the bytes between
  cursor and committed; the value is the big-endian number held by the four bytes at
  the cursor. The source moves the cursor itself (\<^verbatim>\<open>rbuf.buf_ptr += initial_read_size\<close>),
  so \<open>GetUInt32BigEndian\<close> does not.

  \<^verbatim>\<open>ReadStartupPacketHeader\<close> computes \<^verbatim>\<open>rpkt.len = rbuf.GetUInt32BigEndian() - sizeof(uint32_t)\<close>
  in \<^verbatim>\<open>size_t\<close>, taken here as 64 bits wide, without a test of the value read; the result
  is the triple of the value returned, the buffer and the packet.
\<close>

definition IsReadDataAvailable :: "Buffer \<Rightarrow> nat \<Rightarrow> bool" where
  "IsReadDataAvailable b bytes \<longleftrightarrow> buf_ptr b + bytes \<le> buf_size b"

definition GetUInt32BigEndian :: "Buffer \<Rightarrow> 32 word" where
  "GetUInt32BigEndian b =
     word_of_nat (unat (buf b ! buf_ptr b) * 2 ^ 24 + unat (buf b ! (buf_ptr b + 1)) * 2 ^ 16 +
                  unat (buf b ! (buf_ptr b + 2)) * 2 ^ 8 + unat (buf b ! (buf_ptr b + 3)))"

definition ReadStartupPacketHeader ::
  "nat \<Rightarrow> Buffer \<Rightarrow> InputPacket \<Rightarrow> bool \<times> Buffer \<times> InputPacket" where
  "ReadStartupPacketHeader cap rb rpkt =
     (if \<not> IsReadDataAvailable rb 4 then (False, rb, rpkt)
      else
        (let l = (ucast (GetUInt32BigEndian rb) :: 64 word) - 4;
             ext = (unat l > cap);
             rpkt = rpkt\<lparr>in_len := l, is_extended := ext,
                          extended_reserved := (if ext then Some l else extended_reserved rpkt)\<rparr>
         in (True, rb\<lparr>buf_ptr := buf_ptr rb + 4\<rparr>, rpkt\<lparr>header_parsed := True\<rparr>)))"


subsection \<open>Closing: \<^verbatim>\<open>CloseSocket\<close> and \<^verbatim>\<open>Reset\<close>\<close>

text \<open>
  The loop \<^verbatim>\<open>while (1)\<close> around \<^verbatim>\<open>SSL_shutdown\<close> and the loop \<^verbatim>\<open>for (;;)\<close> around \<^verbatim>\<open>close\<close>.
  Neither has a bound in the source, so both are partial functions into \<open>option\<close>, and a
  peer is a function from the number of the call to what the call returns (for
  \<^verbatim>\<open>SSL_shutdown\<close> its result and the value of \<^verbatim>\<open>SSL_get_error\<close>). Each returns the number of
  calls made when it leaves the loop; \<open>None\<close> is a loop that never ends.
\<close>

datatype ssl_error =
  SSL_ERROR_NONE | SSL_ERROR_SSL | SSL_ERROR_WANT_READ | SSL_ERROR_WANT_WRITE |
  SSL_ERROR_SYSCALL | SSL_ERROR_ZERO_RETURN

partial_function (option) ssl_shutdown_loop :: "(nat \<Rightarrow> int \<times> ssl_error) \<Rightarrow> nat \<Rightarrow> nat option" where
  "ssl_shutdown_loop shutdown_env i =
     (case shutdown_env i of
        (shutdown_ret, err) \<Rightarrow>
          if shutdown_ret = 1 then Some (Suc i)
          else if shutdown_ret = 0 then ssl_shutdown_loop shutdown_env (Suc i)
          else if err = SSL_ERROR_WANT_WRITE \<or> err = SSL_ERROR_WANT_READ
               then ssl_shutdown_loop shutdown_env (Suc i)
               else Some (Suc i))"

declare ssl_shutdown_loop.simps [code]

partial_function (option) close_loop :: "(nat \<Rightarrow> unit sys_io) \<Rightarrow> nat \<Rightarrow> nat option" where
  "close_loop close_env j =
     (case close_env j of
        SysOk _ \<Rightarrow> Some (Suc j)
      | SysFailed e \<Rightarrow> if e = EINTR then close_loop close_env (Suc j) else Some (Suc j))"

declare close_loop.simps [code]

text \<open>
  \<^verbatim>\<open>NetworkConnection::Reset\<close> as in the source. Modelled from the spec: the \<^verbatim>\<open>Reset\<close> of the
  startup packet and of the protocol handler are defined outside the files at hand; by
  the specification the handler's \<^verbatim>\<open>reset()\<close> "clears queues and parser state", and a
  packet that is reset is as new. The client record and the traffic cop have no part in
  what follows and are left out. \<^verbatim>\<open>event_del\<close> and \<^verbatim>\<open>event_add\<close> are the calls of the event
  library that take an event out of the pending set and put it in.
\<close>

definition InputPacket_Reset :: "InputPacket \<Rightarrow> InputPacket" where
  "InputPacket_Reset p =
     \<lparr>in_len = 0, is_extended = False, header_parsed = False, is_initialized = False,
      extended_reserved = None\<rparr>"

definition Reset :: "NetworkConnection \<Rightarrow> NetworkConnection" where
  "Reset c =
     c\<lparr>rbuf := Buffer_Reset (rbuf c), wbuf := Buffer_Reset (wbuf c),
       responses := (if protocol_handler c then [] else responses c),
       next_response := 0, ssl_handshake := False, finish_startup_packet := False,
       initial_packet := InputPacket_Reset (initial_packet c),
       conn_SSL_context := False,
       write_blocked_on_read := False, read_blocked_on_write := False,
       read_blocked := False, write_blocked := False\<rparr>"

definition event_del :: "event \<Rightarrow> event" where
  "event_del e = e\<lparr>ev_pending := False\<rparr>"


text \<open>
  \<^verbatim>\<open>CloseSocket\<close>: delete both events, set the state to \<^verbatim>\<open>CONN_CLOSED\<close>, shut the TLS session
  down if there is one, \<^verbatim>\<open>Reset\<close>, and call \<^verbatim>\<open>close(sock_fd_)\<close> until it does not fail with
  \<^verbatim>\<open>EINTR\<close>. Nothing in it tests whether the connection was closed before.
\<close>

definition CloseSocket ::
  "(nat \<Rightarrow> int \<times> ssl_error) \<Rightarrow> (nat \<Rightarrow> unit sys_io) \<Rightarrow> NetworkConnection \<Rightarrow>
     (Transition \<times> NetworkConnection) option" where
  "CloseSocket shutdown_env close_env c =
     (let c = c\<lparr>network_event := event_del (network_event c),
                 workpool_event := event_del (workpool_event c),
                 state := CONN_CLOSED\<rparr>
      in case (if conn_SSL_context c
               then map_option (\<lambda>n. c\<lparr>shutdown_calls := n\<rparr>)
                      (ssl_shutdown_loop shutdown_env (shutdown_calls c))
               else Some c) of
           None \<Rightarrow> None
         | Some c \<Rightarrow>
             (let c = Reset c
              in case close_loop close_env (close_calls c) of
                   None \<Rightarrow> None
                 | Some m \<Rightarrow> Some (NONE, c\<lparr>close_calls := m\<rparr>)))"

text \<open>
  Two peers that never finish the shutdown, and the outcomes of \<^verbatim>\<open>SSL_shutdown\<close> on which
  the loop leaves.
\<close>

definition never_done :: "nat \<Rightarrow> int \<times> ssl_error" where
  "never_done i = (0, SSL_ERROR_SYSCALL)"

definition always_wants_read :: "nat \<Rightarrow> int \<times> ssl_error" where
  "always_wants_read i = (- 1, SSL_ERROR_WANT_READ)"

definition shutdown_terminal :: "int \<times> ssl_error \<Rightarrow> bool" where
  "shutdown_terminal o' \<longleftrightarrow>
     fst o' = 1 \<or> (fst o' \<noteq> 0 \<and> snd o' \<noteq> SSL_ERROR_WANT_WRITE \<and> snd o' \<noteq> SSL_ERROR_WANT_READ)"

lemma ssl_shutdown_loop_step:
  "ssl_shutdown_loop env i =
     (if shutdown_terminal (env i) then Some (Suc i) else ssl_shutdown_loop env (Suc i))"
  by (subst ssl_shutdown_loop.simps) (auto simp: shutdown_terminal_def split: prod.splits)

lemma ssl_shutdown_loop_terminal:
  assumes "shutdown_terminal (env (i + k))" and "\<forall>j < k. \<not> shutdown_terminal (env (i + j))"
  shows "ssl_shutdown_loop env i = Some (Suc (i + k))"
  using assms
proof (induction k arbitrary: i)
  case 0
  then show ?case by (simp add: ssl_shutdown_loop_step [of env i])
next
  case (Suc k)
  from Suc.prems(2) have n0: "\<not> shutdown_terminal (env i)" by force
  have "ssl_shutdown_loop env (Suc i) = Some (Suc (Suc i + k))"
  proof (rule Suc.IH)
    show "shutdown_terminal (env (Suc i + k))" using Suc.prems(1) by simp
    show "\<forall>j<k. \<not> shutdown_terminal (env (Suc i + j))"
      using Suc.prems(2) by (metis add_Suc_shift Suc_less_eq)
  qed
  with n0 show ?case by (simp add: ssl_shutdown_loop_step [of env i])
qed

lemma ssl_shutdown_loop_Some:
  assumes "ssl_shutdown_loop env i = Some n"
  shows "i < n \<and> shutdown_terminal (env (n - 1)) \<and> (\<forall>j. i \<le> j \<and> j < n - 1 \<longrightarrow> \<not> shutdown_terminal (env j))"
proof (rule ssl_shutdown_loop.raw_induct
    [where P = "\<lambda>env i n. i < n \<and> shutdown_terminal (env (n - 1)) \<and>
                    (\<forall>j. i \<le> j \<and> j < n - 1 \<longrightarrow> \<not> shutdown_terminal (env j))", OF _ assms],
    goal_cases)
  case (1 f env i n)
  show ?case
  proof (cases "shutdown_terminal (env i)")
    case True
    with 1(2) have "n = Suc i"
      by (auto simp: shutdown_terminal_def split: prod.splits if_splits)
    with True show ?thesis by auto
  next
    case False
    with 1(2) have "f env (Suc i) = Some n"
      by (auto simp: shutdown_terminal_def split: prod.splits if_splits)
    from 1(1) [OF this] False show ?thesis
      by (auto simp: le_Suc_eq) (metis Suc_leI le_neq_implies_less)
  qed
qed

lemma ssl_shutdown_loop_None:
  "ssl_shutdown_loop env i = None \<longleftrightarrow> (\<forall>j \<ge> i. \<not> shutdown_terminal (env j))"
proof
  assume n: "ssl_shutdown_loop env i = None"
  show "\<forall>j \<ge> i. \<not> shutdown_terminal (env j)"
  proof (rule ccontr)
    assume "\<not> (\<forall>j \<ge> i. \<not> shutdown_terminal (env j))"
    then have ex: "\<exists>k. shutdown_terminal (env (i + k))"
      by (metis le_Suc_ex)
    define k where "k = (LEAST k. shutdown_terminal (env (i + k)))"
    have "shutdown_terminal (env (i + k))" unfolding k_def using ex by (rule LeastI_ex)
    moreover have "\<forall>j < k. \<not> shutdown_terminal (env (i + j))"
      unfolding k_def using not_less_Least by blast
    ultimately have "ssl_shutdown_loop env i = Some (Suc (i + k))"
      by (rule ssl_shutdown_loop_terminal)
    with n show False by simp
  qed
next
  assume a: "\<forall>j \<ge> i. \<not> shutdown_terminal (env j)"
  show "ssl_shutdown_loop env i = None"
  proof (cases "ssl_shutdown_loop env i")
    case None
    then show ?thesis .
  next
    case (Some n)
    from ssl_shutdown_loop_Some [OF Some] a show ?thesis
      by (metis Suc_pred' less_Suc_eq_le not_less_zero gr0I)
  qed
qed


subsection \<open>The states \<^verbatim>\<open>Process\<close>, \<^verbatim>\<open>ProcessWrite\<close>, \<^verbatim>\<open>GetResult\<close> and the driver\<close>


















subsection \<open>What the read path preserves\<close>

text \<open>
  \<open>rbuf_ok\<close> is the index invariant of the read buffer. \<open>fill_indep g\<close>: the observation \<open>g\<close>
  does not depend on the fields \<^verbatim>\<open>FillReadBuffer\<close> may write. \<open>read_blocked_ok\<close>: the flag
  \<^verbatim>\<open>read_blocked\<close> is only set on a TLS connection whose buffer has room, which is how
  the loop leaves it.
\<close>

definition rbuf_ok :: "nat \<Rightarrow> Buffer \<Rightarrow> bool" where
  "rbuf_ok cap r \<longleftrightarrow> buf_ptr r \<le> buf_size r \<and> buf_size r \<le> cap \<and> length (buf r) = cap"

definition fill_indep :: "(NetworkConnection \<Rightarrow> 'a) \<Rightarrow> bool" where
  "fill_indep g \<longleftrightarrow>
     (\<forall>c v. g (c\<lparr>rbuf := v\<rparr>) = g c) \<and> (\<forall>c v. g (c\<lparr>read_script := v\<rparr>) = g c) \<and>
     (\<forall>c v. g (c\<lparr>ssl_read_script := v\<rparr>) = g c) \<and> (\<forall>c v. g (c\<lparr>read_blocked := v\<rparr>) = g c) \<and>
     (\<forall>c v. g (c\<lparr>read_blocked_on_write := v\<rparr>) = g c)"

definition read_blocked_ok :: "nat \<Rightarrow> NetworkConnection \<Rightarrow> bool" where
  "read_blocked_ok cap c \<longleftrightarrow> (read_blocked c \<longrightarrow> conn_SSL_context c \<and> buf_size (rbuf c) < cap)"

definition fill_rel :: "(NetworkConnection \<Rightarrow> 'a) \<Rightarrow> nat \<Rightarrow> NetworkConnection \<Rightarrow> NetworkConnection \<Rightarrow> bool" where
  "fill_rel g cap c c' \<longleftrightarrow>
     (rbuf_ok cap (rbuf c) \<longrightarrow> rbuf_ok cap (rbuf c')) \<and>
     buf_ptr (rbuf c') = buf_ptr (rbuf c) \<and>
     conn_SSL_context c' = conn_SSL_context c \<and>
     (fill_indep g \<longrightarrow> g c' = g c)"

lemma fill_rel_refl [simp]: "fill_rel g cap c c"
  by (simp add: fill_rel_def)

lemma fill_rel_trans: "fill_rel g cap a b \<Longrightarrow> fill_rel g cap b c \<Longrightarrow> fill_rel g cap a c"
  by (auto simp: fill_rel_def)

lemma store_read_ok:
  assumes "store_read cap data r = Inr b"
  shows "buf_ptr b = buf_ptr r" and "rbuf_ok cap r \<Longrightarrow> rbuf_ok cap b"
    and "buf_size r \<le> buf_size b"
proof -
  let ?n = "min (length data) (sub_size_t cap (buf_size r))"
  from assms obtain bs where cp: "copy_range data 0 ?n (buf r) (buf_size r) = Inr bs"
    and b: "b = r\<lparr>buf := bs, buf_size := buf_size r + ?n\<rparr>"
    unfolding store_read_def Let_def by (auto split: sum.splits)
  from b show "buf_ptr b = buf_ptr r" and "buf_size r \<le> buf_size b" by simp_all
  assume "rbuf_ok cap r"
  with copy_range_Inr(1,2) [OF cp] b show "rbuf_ok cap b"
    by (simp add: rbuf_ok_def)
qed

lemma fill_upd_rel:
  assumes "store_read cap data (rbuf c0) = Inr b" and "fill_rel g cap c c0"
  shows "fill_rel g cap c (c0\<lparr>rbuf := b\<rparr>)"
  using store_read_ok(1,2) [OF assms(1)] assms(2)
  by (auto simp: fill_rel_def fill_indep_def)


definition fill_post :: "(NetworkConnection \<Rightarrow> 'a) \<Rightarrow> nat \<Rightarrow> NetworkConnection \<Rightarrow> NetworkConnection \<Rightarrow> bool" where
  "fill_post g cap c c' \<longleftrightarrow>
     fill_rel g cap c c' \<and>
     (rbuf_ok cap (rbuf c) \<and> read_blocked_ok cap c \<longrightarrow> read_blocked_ok cap c')"

lemma fill_post_trans:
  assumes "fill_post g cap c0 c'" and "fill_rel g cap c c0"
    and "rbuf_ok cap (rbuf c) \<and> read_blocked_ok cap c \<longrightarrow> read_blocked_ok cap c0"
  shows "fill_post g cap c c'"
  using assms unfolding fill_post_def by (auto simp: fill_rel_def)

lemma fill_loop_post:
  "fill_loop cap result c = Inr (t, c') \<Longrightarrow> fill_post g cap c c'"
proof (induction cap result c arbitrary: t c' rule: fill_loop.induct)
  case (1 cap result c)
  note unf = fill_loop.simps [of cap result c]
  show ?case
  proof (cases "buf_size (rbuf c) = cap")
    case True
    with "1.prems" have "c' = c" by (simp add: unf)
    then show ?thesis by (simp add: fill_post_def)
  next
    case nf: False
    show ?thesis
    proof (cases "conn_SSL_context c")
      case ssl: True
      show ?thesis
      proof (cases "ssl_read_script c")
        case Nil
        with nf ssl "1.prems" show ?thesis by (simp add: unf)
      next
        case (Cons x rest)
        define c0 where "c0 = c\<lparr>ssl_read_script := rest, read_blocked_on_write := False,
                         read_blocked := False\<rparr>"
        have r0: "fill_rel g cap c c0" by (simp add: fill_rel_def fill_indep_def c0_def)
        have b0: "read_blocked_ok cap c0" "rbuf c0 = rbuf c" "conn_SSL_context c0"
          using ssl by (simp_all add: read_blocked_ok_def c0_def)
        have direct: "fill_post g cap c c'"
          if "c' = c0 \<or> c' = c0\<lparr>read_blocked := True\<rparr> \<or> c' = c0\<lparr>read_blocked_on_write := True\<rparr>"
          using that nf ssl unfolding fill_post_def fill_rel_def c0_def
          by (auto simp: fill_indep_def read_blocked_ok_def rbuf_ok_def)
        show ?thesis
        proof (cases x)
          case (SslOk data)
          with nf ssl Cons "1.prems" obtain b where s: "store_read cap data (rbuf c0) = Inr b"
            and f: "fill_loop cap PROCEED (c0\<lparr>rbuf := b\<rparr>) = Inr (t, c')"
            by (auto simp: unf c0_def Let_def split: sum.splits)
          from "1.IH"(1) [OF nf ssl Cons c0_def SslOk s f]
          have ih: "fill_post g cap (c0\<lparr>rbuf := b\<rparr>) c'" .
          show ?thesis
          proof (rule fill_post_trans [OF ih])
            show "fill_rel g cap c (c0\<lparr>rbuf := b\<rparr>)" by (rule fill_upd_rel [OF s r0])
            show "rbuf_ok cap (rbuf c) \<and> read_blocked_ok cap c \<longrightarrow> read_blocked_ok cap (c0\<lparr>rbuf := b\<rparr>)"
              by (simp add: read_blocked_ok_def c0_def)
          qed
        next
          case SslZeroReturn
          with nf ssl Cons "1.prems" show ?thesis by (intro direct) (simp add: unf c0_def)
        next
          case SslWantRead
          with nf ssl Cons "1.prems" show ?thesis by (intro direct) (simp add: unf c0_def)
        next
          case SslWantWrite
          with nf ssl Cons "1.prems" show ?thesis by (intro direct) (simp add: unf c0_def)
        next
          case (SslSyscall e)
          show ?thesis
          proof (cases "e = EINTR")
            case True
            with nf ssl Cons SslSyscall "1.prems"
            have f: "fill_loop cap result c0 = Inr (t, c')" by (simp add: unf c0_def)
            from "1.IH"(2) [OF nf ssl Cons c0_def SslSyscall True f]
            show ?thesis using r0 b0 by (auto intro: fill_post_trans)
          next
            case False
            with nf ssl Cons SslSyscall "1.prems" show ?thesis
              by (intro direct) (simp add: unf c0_def)
          qed
        next
          case SslFatal
          with nf ssl Cons "1.prems" show ?thesis by (intro direct) (simp add: unf c0_def)
        qed
      qed
    next
      case plain: False
      show ?thesis
      proof (cases "read_script c")
        case Nil
        with nf plain "1.prems" show ?thesis by (simp add: unf)
      next
        case (Cons x rest)
        define c0 where "c0 = c\<lparr>read_script := rest\<rparr>"
        have r0: "fill_rel g cap c c0" by (simp add: fill_rel_def fill_indep_def c0_def)
        have b0: "read_blocked_ok cap c \<longrightarrow> read_blocked_ok cap c0"
          by (simp add: read_blocked_ok_def c0_def)
        have direct: "fill_post g cap c c'" if "c' = c0"
          using that unfolding fill_post_def fill_rel_def c0_def
          by (auto simp: fill_indep_def read_blocked_ok_def)
        show ?thesis
        proof (cases x)
          case (SysOk data)
          show ?thesis
          proof (cases "data = []")
            case True
            with nf plain Cons SysOk "1.prems" show ?thesis
              by (intro direct) (simp add: unf c0_def)
          next
            case ne: False
            with nf plain Cons SysOk "1.prems"
            obtain b where s: "store_read cap data (rbuf c0) = Inr b"
              and f: "fill_loop cap PROCEED (c0\<lparr>rbuf := b\<rparr>) = Inr (t, c')"
              by (auto simp: unf c0_def Let_def split: sum.splits)
            from "1.IH"(3) [OF nf plain Cons c0_def SysOk ne s f]
            have ih: "fill_post g cap (c0\<lparr>rbuf := b\<rparr>) c'" .
            show ?thesis
            proof (rule fill_post_trans [OF ih])
              show "fill_rel g cap c (c0\<lparr>rbuf := b\<rparr>)" by (rule fill_upd_rel [OF s r0])
              show "rbuf_ok cap (rbuf c) \<and> read_blocked_ok cap c \<longrightarrow> read_blocked_ok cap (c0\<lparr>rbuf := b\<rparr>)"
                using plain by (simp add: read_blocked_ok_def c0_def)
            qed
          qed
        next
          case (SysFailed e)
          show ?thesis
          proof (cases "e = EAGAIN \<or> e = EWOULDBLOCK")
            case True
            with nf plain Cons SysFailed "1.prems" show ?thesis
              by (intro direct) (auto simp add: unf c0_def)
          next
            case na: False
            show ?thesis
            proof (cases "e = EINTR")
              case True
              with nf plain Cons SysFailed na "1.prems"
              have f: "fill_loop cap result c0 = Inr (t, c')" by (simp add: unf c0_def)
              from "1.IH"(4) [OF nf plain Cons c0_def SysFailed na True f]
              show ?thesis using r0 b0 by (auto intro: fill_post_trans)
            next
              case False
              with nf plain Cons SysFailed na "1.prems" show ?thesis
                by (intro direct) (simp add: unf c0_def)
            qed
          qed
        qed
      qed
    qed
  qed
qed


lemma fill_prepare_char:
  assumes ok: "rbuf_ok cap (rbuf c)"
  shows "\<exists>c'. fill_prepare cap c = Inr c' \<and> c' = c\<lparr>rbuf := rbuf c'\<rparr> \<and>
           buf_flush_ptr (rbuf c') = (if read_blocked c then buf_flush_ptr (rbuf c)
              else if buf_ptr (rbuf c) = buf_size (rbuf c) then 0 else buf_flush_ptr (rbuf c)) \<and>
           (if read_blocked c then c' = c
            else if buf_ptr (rbuf c) = buf_size (rbuf c) then
              buf_ptr (rbuf c') = 0 \<and> buf_size (rbuf c') = 0 \<and> buf (rbuf c') = buf (rbuf c)
            else if buf_size (rbuf c) = cap then
              buf_ptr (rbuf c') = 0 \<and>
              buf_size (rbuf c') = buf_size (rbuf c) - buf_ptr (rbuf c) \<and>
              length (buf (rbuf c')) = cap \<and>
              take (buf_size (rbuf c')) (buf (rbuf c')) =
                drop (buf_ptr (rbuf c)) (take (buf_size (rbuf c)) (buf (rbuf c)))
            else c' = c)"
proof (cases "read_blocked c")
  case True
  then show ?thesis by (simp add: fill_prepare_def)
next
  case nb: False
  show ?thesis
  proof (cases "buf_ptr (rbuf c) = buf_size (rbuf c)")
    case True
    with nb show ?thesis
      by (simp add: fill_prepare_def Buffer_Reset_def Let_def)
  next
    case ne: False
    with ok have lt: "buf_ptr (rbuf c) < buf_size (rbuf c)" by (simp add: rbuf_ok_def)
    show ?thesis
    proof (cases "buf_size (rbuf c) = cap")
      case False
      with nb ne lt show ?thesis by (simp add: fill_prepare_def Let_def)
    next
      case full: True
      let ?r = "rbuf c" and ?n = "buf_size (rbuf c) - buf_ptr (rbuf c)"
      from ok full have len: "length (buf ?r) = cap" "buf_size ?r = length (buf ?r)"
        by (simp_all add: rbuf_ok_def)
      have cp: "copy_range (buf ?r) (buf_ptr ?r) ?n (buf ?r) 0 =
                  Inr (take ?n (drop (buf_ptr ?r) (buf ?r)) @ drop ?n (buf ?r))"
        using lt len by (simp add: copy_range_def)
      have tk: "take ?n (take ?n (drop (buf_ptr ?r) (buf ?r)) @ drop ?n (buf ?r)) =
                drop (buf_ptr ?r) (take (buf_size ?r) (buf ?r))"
        using lt len by simp
      from nb ne lt full cp tk len show ?thesis
        by (simp add: fill_prepare_def Let_def)
    qed
  qed
qed

lemma fill_prepare_post:
  assumes "fill_prepare cap c = Inr c'"
  shows "fill_rel g cap c c' \<or> buf_ptr (rbuf c') = 0" and "fill_indep g \<Longrightarrow> g c' = g c"
    and "rbuf_ok cap (rbuf c) \<Longrightarrow> rbuf_ok cap (rbuf c')"
    and "conn_SSL_context c' = conn_SSL_context c" and "read_blocked c' = read_blocked c"
    and "buf_size (rbuf c') \<le> buf_size (rbuf c)"
proof -
  have a: "(fill_rel g cap c c' \<or> buf_ptr (rbuf c') = 0) \<and> (fill_indep g \<longrightarrow> g c' = g c) \<and>
        (rbuf_ok cap (rbuf c) \<longrightarrow> rbuf_ok cap (rbuf c')) \<and>
        conn_SSL_context c' = conn_SSL_context c \<and> read_blocked c' = read_blocked c \<and>
        buf_size (rbuf c') \<le> buf_size (rbuf c)"
  proof (cases "read_blocked c")
    case True
    with assms show ?thesis by (simp add: fill_prepare_def)
  next
    case nb: False
    define r where "r = (if buf_ptr (rbuf c) = buf_size (rbuf c) then Buffer_Reset (rbuf c) else rbuf c)"
    have r: "length (buf r) = length (buf (rbuf c))" "buf_size r \<le> buf_size (rbuf c)"
      by (simp_all add: r_def Buffer_Reset_def)
    from assms nb have le: "buf_ptr r \<le> buf_size r"
      unfolding fill_prepare_def Let_def r_def [symmetric] by (auto split: if_splits)
    show ?thesis
    proof (cases "buf_ptr r < buf_size r \<and> buf_size r = cap")
      case False
      with assms nb le have "c' = c\<lparr>rbuf := r\<rparr>"
        unfolding fill_prepare_def Let_def r_def [symmetric] by (auto split: if_splits)
      with r le show ?thesis
        by (auto simp: fill_rel_def fill_indep_def rbuf_ok_def r_def Buffer_Reset_def)
    next
      case True
      with assms nb le obtain b
        where cp: "copy_range (buf r) (buf_ptr r) (buf_size r - buf_ptr r) (buf r) 0 = Inr b"
          and c': "c' = c\<lparr>rbuf := r\<lparr>buf := b, buf_ptr := 0, buf_size := buf_size r - buf_ptr r\<rparr>\<rparr>"
        unfolding fill_prepare_def Let_def r_def [symmetric] by (auto split: if_splits sum.splits)
      from copy_range_Inr(1) [OF cp] c' r True show ?thesis
        by (auto simp: fill_indep_def rbuf_ok_def)
    qed
  qed
  from a show "fill_rel g cap c c' \<or> buf_ptr (rbuf c') = 0" and "fill_indep g \<Longrightarrow> g c' = g c"
    and "rbuf_ok cap (rbuf c) \<Longrightarrow> rbuf_ok cap (rbuf c')"
    and "conn_SSL_context c' = conn_SSL_context c" and "read_blocked c' = read_blocked c"
    and "buf_size (rbuf c') \<le> buf_size (rbuf c)" by simp_all
qed

lemma FillReadBuffer_post:
  assumes "FillReadBuffer cap c = Inr (t, c')"
  shows "rbuf_ok cap (rbuf c) \<Longrightarrow> rbuf_ok cap (rbuf c')"
    and "fill_indep g \<Longrightarrow> g c' = g c"
    and "rbuf_ok cap (rbuf c) \<Longrightarrow> read_blocked_ok cap c \<Longrightarrow> read_blocked_ok cap c'"
proof -
  from assms obtain c1 where p: "fill_prepare cap c = Inr c1"
    and l: "fill_loop cap NEED_DATA c1 = Inr (t, c')"
    unfolding FillReadBuffer_def by (auto split: sum.splits)
  note fp = fill_loop_post [OF l, of g, unfolded fill_post_def fill_rel_def]
  note pp = fill_prepare_post [OF p]
  show "rbuf_ok cap (rbuf c) \<Longrightarrow> rbuf_ok cap (rbuf c')" using fp pp(3) by simp
  show "fill_indep g \<Longrightarrow> g c' = g c" using fp pp(2) [of g] by simp
  show "rbuf_ok cap (rbuf c) \<Longrightarrow> read_blocked_ok cap c \<Longrightarrow> read_blocked_ok cap c'"
    using fp pp(3,4,5,6) by (auto simp: read_blocked_ok_def)
qed


text \<open>
  A connection as \<^verbatim>\<open>Init\<close> leaves a new one, with buffers of size \<open>cap\<close>: the concrete
  connections below are variations of it.
\<close>

definition conn0 :: "nat \<Rightarrow> NetworkConnection" where
  "conn0 cap =
     \<lparr>rbuf = \<lparr>buf_ptr = 0, buf_size = 0, buf_flush_ptr = 0, buf = replicate cap 0\<rparr>,
      wbuf = \<lparr>buf_ptr = 0, buf_size = 0, buf_flush_ptr = 0, buf = replicate cap 0\<rparr>,
      responses = [], next_response = 0, flush_flag = False, protocol_handler = False,
      finish_startup_packet = False,
      initial_packet = \<lparr>in_len = 0, is_extended = False, header_parsed = False,
                         is_initialized = False, extended_reserved = None\<rparr>,
      ssl_sent = False, ssl_handshake = False, conn_SSL_context = False,
      read_blocked = False, read_blocked_on_write = False, write_blocked = False,
      write_blocked_on_read = False,
      network_event = \<lparr>ev_flags = {EV_READ, EV_PERSIST}, ev_pending = True\<rparr>,
      workpool_event = \<lparr>ev_flags = {}, ev_pending = False\<rparr>,
      state = CONN_READ, sock_out = [], wbuf_after = (\<lambda>_. 0), write_script = [],
      ssl_write_script = [],
      read_script = [], ssl_read_script = [], shutdown_calls = 0, close_calls = 0\<rparr>"

subsection \<open>Claims about closing\<close>

text \<open>
  A peer that completes the shutdown on the fourth call of \<^verbatim>\<open>SSL_shutdown\<close>, a \<^verbatim>\<open>close\<close> that
  succeeds at once, and a \<^verbatim>\<open>close\<close> that is interrupted once.
\<close>

definition eventually_done :: "nat \<Rightarrow> int \<times> ssl_error" where
  "eventually_done i = (if i < 3 then (- 1, SSL_ERROR_WANT_READ) else (1, SSL_ERROR_NONE))"

definition close_ok :: "nat \<Rightarrow> unit sys_io" where
  "close_ok j = SysOk ()"

definition close_interrupted_once :: "nat \<Rightarrow> unit sys_io" where
  "close_interrupted_once j = (if j = 0 then SysFailed EINTR else SysOk ())"

text \<open>
  C5 (amended). The shutdown loop of \<open>CloseSocket\<close> has no iteration cap. It returns
  exactly when some call of \<^verbatim>\<open>SSL_shutdown\<close> is terminal (it returns 1, or it fails with
  an error other than \<^verbatim>\<open>SSL_ERROR_WANT_READ\<close> and \<^verbatim>\<open>SSL_ERROR_WANT_WRITE\<close>), and it has
  then made as many calls as it takes to reach the first terminal one; when no call is
  ever terminal, it does not return.
\<close>

theorem ssl_shutdown_loop_unbounded:
  "ssl_shutdown_loop shutdown_env 0 =
     (if \<exists>j. shutdown_terminal (shutdown_env j)
      then Some (Suc (LEAST j. shutdown_terminal (shutdown_env j))) else None)"
proof (cases "\<exists>j. shutdown_terminal (shutdown_env j)")
  case False
  then show ?thesis by (simp add: ssl_shutdown_loop_None)
next
  case True
  define k where "k = (LEAST j. shutdown_terminal (shutdown_env j))"
  have "shutdown_terminal (shutdown_env k)"
    unfolding k_def using True by (rule LeastI_ex)
  then have "shutdown_terminal (shutdown_env (0 + k))" by simp
  moreover have "\<forall>j < k. \<not> shutdown_terminal (shutdown_env (0 + j))"
    unfolding k_def using not_less_Least by auto
  ultimately have "ssl_shutdown_loop shutdown_env 0 = Some (Suc (0 + k))"
    by (rule ssl_shutdown_loop_terminal)
  with True show ?thesis by (simp add: k_def)
qed

text \<open>
  The theorem at a peer that answers the fourth call: three \<^verbatim>\<open>WANT_READ\<close>, then success.
\<close>

theorem ssl_shutdown_loop_unbounded_witness:
  "ssl_shutdown_loop eventually_done 0 = Some 4"
proof -
  have t: "shutdown_terminal (eventually_done j) \<longleftrightarrow> 3 \<le> j" for j
    by (simp add: shutdown_terminal_def eventually_done_def)
  have "(LEAST j. shutdown_terminal (eventually_done j)) = 3"
    by (rule Least_equality) (simp_all add: t)
  moreover have "\<exists>j. shutdown_terminal (eventually_done j)"
    using t [of 3] by blast
  ultimately show ?thesis
    using ssl_shutdown_loop_unbounded [of eventually_done] by simp
qed

text \<open>
  C5 as stated fails: for a peer whose \<^verbatim>\<open>SSL_shutdown\<close> always returns 0 ("not finished
  yet"), or always wants to read, the loop never returns, and neither does
  \<open>CloseSocket\<close> on a connection with a TLS session.
\<close>

theorem ssl_shutdown_loop_never_returns:
  "ssl_shutdown_loop never_done 0 = None \<and> ssl_shutdown_loop always_wants_read 0 = None \<and>
   CloseSocket never_done close_ok ((conn0 8)\<lparr>conn_SSL_context := True\<rparr>) = None"
proof -
  have a: "ssl_shutdown_loop never_done i = None" for i
    by (simp add: ssl_shutdown_loop_None shutdown_terminal_def never_done_def)
  have b: "ssl_shutdown_loop always_wants_read i = None" for i
    by (simp add: ssl_shutdown_loop_None shutdown_terminal_def always_wants_read_def)
  show ?thesis
    by (simp add: a b CloseSocket_def)
qed


lemma close_loop_Some:
  assumes "close_loop env j = Some m"
  shows "j < m"
proof (rule close_loop.raw_induct [where P = "\<lambda>env j m. j < m", OF _ assms], goal_cases)
  case (1 f env j m)
  show ?case
  proof (cases "env j = SysFailed EINTR")
    case True
    with 1(2) have "f env (Suc j) = Some m" by simp
    from 1(1) [OF this] show ?thesis by simp
  next
    case False
    with 1(2) have "m = Suc j" by (auto split: sys_io.splits if_splits)
    then show ?thesis by simp
  qed
qed

text \<open>
  \<open>close_prefix\<close> is the first three statements of \<^verbatim>\<open>CloseSocket\<close>; \<open>CloseSocket_Some\<close> is the
  shape of every result of \<^verbatim>\<open>CloseSocket\<close>. \<open>CloseSocket_twice\<close> invokes it again on the
  connection the first invocation leaves, in the same environment: the counters of
  calls carry on, so the second invocation sees the outcomes that follow those the
  first one consumed.
\<close>

definition close_prefix :: "NetworkConnection \<Rightarrow> NetworkConnection" where
  "close_prefix c =
     c\<lparr>network_event := event_del (network_event c),
       workpool_event := event_del (workpool_event c), state := CONN_CLOSED\<rparr>"

lemma CloseSocket_Some:
  assumes "CloseSocket senv cenv c = Some (t, c')"
  obtains n m where "t = NONE"
    and "c' = (Reset ((close_prefix c)\<lparr>shutdown_calls := n\<rparr>))\<lparr>close_calls := m\<rparr>"
    and "close_loop cenv (close_calls c) = Some m"
    and "if conn_SSL_context c then ssl_shutdown_loop senv (shutdown_calls c) = Some n
         else n = shutdown_calls c"
proof (cases "conn_SSL_context c")
  case True
  with assms obtain n where n: "ssl_shutdown_loop senv (shutdown_calls c) = Some n"
    unfolding CloseSocket_def Let_def by (auto split: option.splits)
  with assms True obtain m where m: "close_loop cenv (close_calls c) = Some m"
    and "t = NONE" "c' = (Reset ((close_prefix c)\<lparr>shutdown_calls := n\<rparr>))\<lparr>close_calls := m\<rparr>"
    unfolding CloseSocket_def Let_def close_prefix_def
    by (auto simp: Reset_def split: option.splits)
  with True n show ?thesis by (intro that [where n = n and m = m]) simp_all
next
  case False
  with assms obtain m where m: "close_loop cenv (close_calls c) = Some m"
    and "t = NONE" "c' = (Reset (close_prefix c))\<lparr>close_calls := m\<rparr>"
    unfolding CloseSocket_def Let_def close_prefix_def
    by (auto simp: Reset_def split: option.splits)
  with False show ?thesis
    by (intro that [where n = "shutdown_calls c" and m = m]) (simp_all add: close_prefix_def)
qed

lemma close_prefix_Reset_idem:
  "Reset (close_prefix ((Reset ((close_prefix c)\<lparr>shutdown_calls := n\<rparr>))\<lparr>close_calls := m\<rparr>)) =
   (Reset ((close_prefix c)\<lparr>shutdown_calls := n\<rparr>))\<lparr>close_calls := m\<rparr>"
  by (simp add: Reset_def close_prefix_def event_del_def Buffer_Reset_def InputPacket_Reset_def)

definition CloseSocket_twice ::
  "(nat \<Rightarrow> int \<times> ssl_error) \<Rightarrow> (nat \<Rightarrow> unit sys_io) \<Rightarrow> NetworkConnection \<Rightarrow>
     (Transition \<times> NetworkConnection) option" where
  "CloseSocket_twice shutdown_env close_env c =
     (case CloseSocket shutdown_env close_env c of
        None \<Rightarrow> None
      | Some (t, c1) \<Rightarrow> CloseSocket shutdown_env close_env c1)"

text \<open>
  C4 (amended). \<open>CloseSocket\<close> has no guard against a second invocation. When both
  invocations return, the second one leaves every field of the connection as the
  first one left it and runs no TLS shutdown (the first one freed the session), but it
  calls \<^verbatim>\<open>close\<close> on the descriptor again: each invocation makes at least one call of
  \<^verbatim>\<open>close\<close>, so two invocations make at least two.
\<close>

theorem CloseSocket_again:
  assumes "CloseSocket shutdown_env close_env c = Some (t1, c1)"
    and "CloseSocket_twice shutdown_env close_env c = Some (t2, c2)"
  shows "t1 = NONE \<and> t2 = NONE \<and> c2\<lparr>close_calls := close_calls c1\<rparr> = c1 \<and>
         shutdown_calls c2 = shutdown_calls c1 \<and> \<not> conn_SSL_context c1 \<and>
         close_calls c < close_calls c1 \<and> close_calls c1 < close_calls c2 \<and>
         close_calls c + 2 \<le> close_calls c2"
proof -
  from assms have second: "CloseSocket shutdown_env close_env c1 = Some (t2, c2)"
    by (simp add: CloseSocket_twice_def)
  from assms(1) obtain n m where 1: "t1 = NONE"
    "c1 = (Reset ((close_prefix c)\<lparr>shutdown_calls := n\<rparr>))\<lparr>close_calls := m\<rparr>"
    "close_loop close_env (close_calls c) = Some m"
    by (rule CloseSocket_Some)
  have nossl: "\<not> conn_SSL_context c1" and cc1: "close_calls c1 = m" and sc1: "shutdown_calls c1 = n"
    using 1(2) by (simp_all add: Reset_def close_prefix_def)
  from second obtain n' m' where 2: "t2 = NONE"
    "c2 = (Reset ((close_prefix c1)\<lparr>shutdown_calls := n'\<rparr>))\<lparr>close_calls := m'\<rparr>"
    "close_loop close_env (close_calls c1) = Some m'"
    "if conn_SSL_context c1 then ssl_shutdown_loop shutdown_env (shutdown_calls c1) = Some n'
     else n' = shutdown_calls c1"
    by (rule CloseSocket_Some)
  from 2(4) nossl have n': "n' = n" using sc1 by simp
  have "(close_prefix c1)\<lparr>shutdown_calls := n\<rparr> = close_prefix c1"
    using sc1 by (simp add: close_prefix_def)
  with 2(2) n' have "c2 = (Reset (close_prefix c1))\<lparr>close_calls := m'\<rparr>" by simp
  then have "c2\<lparr>close_calls := close_calls c1\<rparr> = (Reset (close_prefix c1))\<lparr>close_calls := m\<rparr>"
    using cc1 by simp
  also have "\<dots> = c1"
    using close_prefix_Reset_idem [where c = c and n = n and m = m] 1(2)
    by (simp add: Reset_def)
  finally have idem: "c2\<lparr>close_calls := close_calls c1\<rparr> = c1" .
  have "shutdown_calls c2 = shutdown_calls c1"
    using 2(2) n' sc1 by (simp add: Reset_def close_prefix_def)
  moreover have "close_calls c < close_calls c1"
    using close_loop_Some [OF 1(3)] cc1 by simp
  moreover have "close_calls c1 < close_calls c2"
    using close_loop_Some [OF 2(3)] 2(2) by (simp add: Reset_def close_prefix_def)
  ultimately show ?thesis using 1(1) 2(1) idem nossl by simp
qed


text \<open>
  A connection with a TLS session about to be closed, and (\<open>closed_conn\<close> below) what its
  first closing leaves when the first \<^verbatim>\<open>close\<close> is interrupted.
\<close>

definition closing_conn :: NetworkConnection where
  "closing_conn = (conn0 8)\<lparr>conn_SSL_context := True, state := CONN_CLOSING\<rparr>"

lemma ssl_shutdown_loop_eventually_done: "ssl_shutdown_loop eventually_done 0 = Some 4"
proof -
  have t: "shutdown_terminal (eventually_done j) \<longleftrightarrow> 3 \<le> j" for j
    by (simp add: shutdown_terminal_def eventually_done_def)
  have "ssl_shutdown_loop eventually_done 0 = Some (Suc (0 + 3))"
    by (rule ssl_shutdown_loop_terminal) (simp_all add: t)
  then show ?thesis by simp
qed

lemma close_loop_ok: "close_loop close_ok j = Some (Suc j)"
  by (subst close_loop.simps) (simp add: close_ok_def)

lemma close_loop_interrupted_once:
  "close_loop close_interrupted_once j = Some (if j = 0 then 2 else Suc j)"
  by (subst close_loop.simps, subst close_loop.simps) (simp add: close_interrupted_once_def)

text \<open>
  C4 as stated fails: two invocations on a closing connection, with every \<^verbatim>\<open>close\<close>
  succeeding at once, pass the descriptor to \<^verbatim>\<open>close\<close> twice.
\<close>

theorem CloseSocket_closes_fd_twice:
  "map_option (close_calls \<circ> snd) (CloseSocket_twice eventually_done close_ok closing_conn) = Some 2"
  by (simp add: CloseSocket_twice_def CloseSocket_def closing_conn_def conn0_def
      ssl_shutdown_loop_eventually_done close_loop_ok Reset_def)

definition closed_conn :: NetworkConnection where
  "closed_conn = (Reset ((close_prefix closing_conn)\<lparr>shutdown_calls := 4\<rparr>))\<lparr>close_calls := 2\<rparr>"

lemma CloseSocket_closing_conn:
  "CloseSocket eventually_done close_interrupted_once closing_conn = Some (NONE, closed_conn)"
  by (simp add: CloseSocket_def closing_conn_def conn0_def ssl_shutdown_loop_eventually_done
      close_loop_interrupted_once closed_conn_def close_prefix_def Reset_def)

lemma CloseSocket_closed_conn:
  "CloseSocket eventually_done close_interrupted_once closed_conn =
     Some (NONE, closed_conn\<lparr>close_calls := 3\<rparr>)"
proof -
  have a: "\<not> conn_SSL_context closed_conn" "close_calls closed_conn = 2"
    by (simp_all add: closed_conn_def Reset_def)
  have b: "Reset (close_prefix closed_conn) = closed_conn"
    unfolding closed_conn_def by (rule close_prefix_Reset_idem)
  show ?thesis
    using a b by (simp add: CloseSocket_def close_loop_interrupted_once close_prefix_def)
qed

text \<open>
  The theorem at a connection with a TLS session whose first \<^verbatim>\<open>close\<close> is interrupted:
  the first invocation makes four calls of \<^verbatim>\<open>SSL_shutdown\<close> and two of \<^verbatim>\<open>close\<close>, the
  second one a third call of \<^verbatim>\<open>close\<close> and nothing else.
\<close>

theorem CloseSocket_again_witness:
  "CloseSocket eventually_done close_interrupted_once closing_conn = Some (NONE, closed_conn) \<and>
   CloseSocket_twice eventually_done close_interrupted_once closing_conn =
     Some (NONE, closed_conn\<lparr>close_calls := 3\<rparr>) \<and>
   close_calls closing_conn = 0 \<and> close_calls closed_conn = 2 \<and> shutdown_calls closed_conn = 4 \<and>
   \<not> conn_SSL_context closed_conn"
proof -
  have 2: "CloseSocket_twice eventually_done close_interrupted_once closing_conn =
     Some (NONE, closed_conn\<lparr>close_calls := 3\<rparr>)"
    by (simp add: CloseSocket_twice_def CloseSocket_closing_conn CloseSocket_closed_conn)
  have "close_calls closing_conn = 0" "shutdown_calls closed_conn = 4" "close_calls closed_conn = 2"
    by (simp_all add: closing_conn_def conn0_def closed_conn_def Reset_def close_prefix_def)
  with CloseSocket_again [OF CloseSocket_closing_conn 2] CloseSocket_closing_conn 2
  show ?thesis by simp
qed


subsection \<open>Claims about the startup header\<close>

text \<open>
  A read buffer of 8192 bytes that holds the first four bytes of a startup packet
  whose length field is 0, and a startup packet as \<^verbatim>\<open>Reset\<close> leaves it.
\<close>

definition short_startup_rbuf :: Buffer where
  "short_startup_rbuf =
     \<lparr>buf_ptr = 0, buf_size = 4, buf_flush_ptr = 0, buf = [0, 0, 0, 0] @ replicate 8188 0\<rparr>"

definition fresh_packet :: InputPacket where
  "fresh_packet =
     \<lparr>in_len = 0, is_extended = False, header_parsed = False, is_initialized = False,
      extended_reserved = None\<rparr>"

lemma ucast_sub4:
  fixes v :: "32 word"
  assumes "v < 4"
  shows "unat ((ucast v :: 64 word) - 4) = 2 ^ 64 - 4 + unat v"
proof -
  from assms have "unat v < 4" by (simp add: word_less_nat_alt)
  then have "unat v = unat (0 :: 32 word) \<or> unat v = unat (1 :: 32 word) \<or>
             unat v = unat (2 :: 32 word) \<or> unat v = unat (3 :: 32 word)"
    by simp arith
  then have "v = 0 \<or> v = 1 \<or> v = 2 \<or> v = 3"
    unfolding word_unat_eq_iff [symmetric] .
  then show ?thesis by (auto simp: unsigned_minus_1_eq_mask mask_eq_exp_minus_1)
qed

text \<open>
  C6 (amended). \<^verbatim>\<open>ReadStartupPacketHeader\<close> does not reject a length field below 4. With
  four bytes available and a buffer size below \<open>2\<^sup>6\<^sup>4 - 4\<close> it returns true, consumes
  the four bytes, marks the header as parsed, sets the payload length to the length
  field minus 4 computed with wrap-around in the 64-bit \<^verbatim>\<open>size_t\<close> (that is,
  \<open>2\<^sup>6\<^sup>4 - 4\<close> plus the field), marks the packet as extended and reserves the extended
  buffer for that size.
\<close>

theorem ReadStartupPacketHeader_short_length:
  assumes "IsReadDataAvailable rb 4" and "GetUInt32BigEndian rb < 4" and "cap < 2 ^ 64 - 4"
  shows "ReadStartupPacketHeader cap rb rpkt =
           (True, rb\<lparr>buf_ptr := buf_ptr rb + 4\<rparr>,
            rpkt\<lparr>in_len := ucast (GetUInt32BigEndian rb) - 4, is_extended := True,
                 extended_reserved := Some (ucast (GetUInt32BigEndian rb) - 4),
                 header_parsed := True\<rparr>) \<and>
         unat (ucast (GetUInt32BigEndian rb) - 4 :: 64 word) = 2 ^ 64 - 4 + unat (GetUInt32BigEndian rb)"
proof -
  note u = ucast_sub4 [OF assms(2)]
  with assms(3) have "cap < unat (ucast (GetUInt32BigEndian rb) - 4 :: 64 word)" by simp
  with assms(1) u show ?thesis
    by (simp add: ReadStartupPacketHeader_def Let_def)
qed

lemma GetUInt32BigEndian_short: "GetUInt32BigEndian short_startup_rbuf = 0"
  by (simp add: GetUInt32BigEndian_def short_startup_rbuf_def)

text \<open>
  The theorem at the buffer above: the length field 0 gives the payload length
  \<open>2\<^sup>6\<^sup>4 - 4\<close>.
\<close>

theorem ReadStartupPacketHeader_short_length_witness:
  "ReadStartupPacketHeader 8192 short_startup_rbuf fresh_packet =
     (True, short_startup_rbuf\<lparr>buf_ptr := 4\<rparr>,
      fresh_packet\<lparr>in_len := 0xFFFFFFFFFFFFFFFC, is_extended := True,
                     extended_reserved := Some 0xFFFFFFFFFFFFFFFC, header_parsed := True\<rparr>) \<and>
   unat (0xFFFFFFFFFFFFFFFC :: 64 word) = 2 ^ 64 - 4"
  using ReadStartupPacketHeader_short_length [of short_startup_rbuf 8192 fresh_packet]
  by (simp add: GetUInt32BigEndian_short IsReadDataAvailable_def)
     (simp add: short_startup_rbuf_def)

text \<open>
  C6 as stated fails: a startup packet with length field 0 is accepted, its payload
  length is the wrapped value, and the extended buffer is reserved for it.
\<close>

theorem ReadStartupPacketHeader_accepts_length_zero:
  "fst (ReadStartupPacketHeader 8192 short_startup_rbuf fresh_packet) \<and>
   header_parsed (snd (snd (ReadStartupPacketHeader 8192 short_startup_rbuf fresh_packet))) \<and>
   is_extended (snd (snd (ReadStartupPacketHeader 8192 short_startup_rbuf fresh_packet))) \<and>
   in_len (snd (snd (ReadStartupPacketHeader 8192 short_startup_rbuf fresh_packet))) = 0xFFFFFFFFFFFFFFFC \<and>
   extended_reserved (snd (snd (ReadStartupPacketHeader 8192 short_startup_rbuf fresh_packet))) =
     Some 0xFFFFFFFFFFFFFFFC"
  by (simp add: ReadStartupPacketHeader_def Let_def GetUInt32BigEndian_short IsReadDataAvailable_def)
     (simp add: short_startup_rbuf_def)


subsection \<open>Claims about the read buffer\<close>

text \<open>
  Three connections with a read buffer of size 8. Two are not read-blocked: one whose
  buffer is full with five bytes consumed, one whose buffer holds three bytes, all of
  them consumed. The third is a TLS connection that waits for the rest of a TLS record
  (read-blocked), with the same three bytes consumed.
\<close>

definition full_rconn :: NetworkConnection where
  "full_rconn =
     (conn0 8)\<lparr>rbuf := \<lparr>buf_ptr = 5, buf_size = 8, buf_flush_ptr = 0, buf = [1, 2, 3, 4, 5, 6, 7, 8]\<rparr>,
               read_script := [SysFailed EAGAIN]\<rparr>"

definition consumed_rconn :: NetworkConnection where
  "consumed_rconn =
     (conn0 8)\<lparr>rbuf := \<lparr>buf_ptr = 3, buf_size = 3, buf_flush_ptr = 0, buf = [1, 2, 3, 0, 0, 0, 0, 0]\<rparr>,
               read_script := [SysFailed EAGAIN]\<rparr>"

definition waiting_rconn :: NetworkConnection where
  "waiting_rconn = consumed_rconn\<lparr>conn_SSL_context := True, read_blocked := True\<rparr>"

text \<open>
  C8 (amended). Before its first socket read, \<^verbatim>\<open>FillReadBuffer\<close> prepares the read buffer
  and then enters the read loop. Whenever committed = CAP and cursor > 0, the unread tail
  is moved to offset 0, the cursor becomes 0 and committed the length of the tail, the
  unread bytes being preserved. The indices are adjusted in one more condition: when
  every byte has been consumed (cursor = committed, whether or not the buffer is full)
  and no TLS read is pending, both are reset to 0. In every other case the connection
  is left as it is. This holds for every connection whose read buffer is well formed
  and whose flag \<^verbatim>\<open>read_blocked\<close> is set only while the buffer has room; the source
  sets the flag only in the read loop, after it has found room in the buffer, and
  \<^verbatim>\<open>FillReadBuffer\<close> returns a connection of which both hold again.
\<close>

theorem FillReadBuffer_precompaction:
  assumes "rbuf_ok cap (rbuf c)" and "read_blocked_ok cap c"
  shows "\<exists>c'. fill_prepare cap c = Inr c' \<and>
           FillReadBuffer cap c = fill_loop cap NEED_DATA c' \<and>
           c' = c\<lparr>rbuf := rbuf c'\<rparr> \<and>
           (buf_size (rbuf c) = cap \<and> 0 < buf_ptr (rbuf c) \<longrightarrow>
              buf_ptr (rbuf c') = 0 \<and>
              buf_size (rbuf c') = buf_size (rbuf c) - buf_ptr (rbuf c) \<and>
              take (buf_size (rbuf c')) (buf (rbuf c')) =
                drop (buf_ptr (rbuf c)) (take (buf_size (rbuf c)) (buf (rbuf c)))) \<and>
           (buf_ptr (rbuf c) = buf_size (rbuf c) \<and> \<not> read_blocked c \<longrightarrow>
              buf_ptr (rbuf c') = 0 \<and> buf_size (rbuf c') = 0 \<and> buf (rbuf c') = buf (rbuf c)) \<and>
           (\<not> (buf_size (rbuf c) = cap \<and> 0 < buf_ptr (rbuf c)) \<and>
            \<not> (buf_ptr (rbuf c) = buf_size (rbuf c) \<and> \<not> read_blocked c) \<longrightarrow> c' = c) \<and>
           (\<forall>t c''. FillReadBuffer cap c = Inr (t, c'') \<longrightarrow>
              rbuf_ok cap (rbuf c'') \<and> read_blocked_ok cap c'')"
proof -
  from fill_prepare_char [OF assms(1)] obtain c' where p: "fill_prepare cap c = Inr c'"
    and eq: "c' = c\<lparr>rbuf := rbuf c'\<rparr>"
    and fp: "buf_flush_ptr (rbuf c') = (if read_blocked c then buf_flush_ptr (rbuf c)
              else if buf_ptr (rbuf c) = buf_size (rbuf c) then 0 else buf_flush_ptr (rbuf c))"
    and ch: "(if read_blocked c then c' = c
            else if buf_ptr (rbuf c) = buf_size (rbuf c) then
              buf_ptr (rbuf c') = 0 \<and> buf_size (rbuf c') = 0 \<and> buf (rbuf c') = buf (rbuf c)
            else if buf_size (rbuf c) = cap then
              buf_ptr (rbuf c') = 0 \<and>
              buf_size (rbuf c') = buf_size (rbuf c) - buf_ptr (rbuf c) \<and>
              length (buf (rbuf c')) = cap \<and>
              take (buf_size (rbuf c')) (buf (rbuf c')) =
                drop (buf_ptr (rbuf c)) (take (buf_size (rbuf c)) (buf (rbuf c)))
            else c' = c)"
    by blast
  have f: "FillReadBuffer cap c = fill_loop cap NEED_DATA c'"
    using p by (simp add: FillReadBuffer_def)
  have len: "buf_size (rbuf c) \<le> length (buf (rbuf c))" "length (buf (rbuf c)) = cap"
    "buf_ptr (rbuf c) \<le> buf_size (rbuf c)"
    using assms(1) by (simp_all add: rbuf_ok_def)
  have nb: "buf_size (rbuf c) = cap \<longrightarrow> \<not> read_blocked c"
    using assms(2) by (auto simp: read_blocked_ok_def)
  have move: "buf_size (rbuf c) = cap \<and> 0 < buf_ptr (rbuf c) \<longrightarrow>
              buf_ptr (rbuf c') = 0 \<and>
              buf_size (rbuf c') = buf_size (rbuf c) - buf_ptr (rbuf c) \<and>
              take (buf_size (rbuf c')) (buf (rbuf c')) =
                drop (buf_ptr (rbuf c)) (take (buf_size (rbuf c)) (buf (rbuf c)))"
    using ch nb len by (auto split: if_splits)
  have reset: "buf_ptr (rbuf c) = buf_size (rbuf c) \<and> \<not> read_blocked c \<longrightarrow>
              buf_ptr (rbuf c') = 0 \<and> buf_size (rbuf c') = 0 \<and> buf (rbuf c') = buf (rbuf c)"
    using ch by (auto split: if_splits)
  have same: "c' = c"
    if a: "\<not> (buf_size (rbuf c) = cap \<and> 0 < buf_ptr (rbuf c))"
      and b: "\<not> (buf_ptr (rbuf c) = buf_size (rbuf c) \<and> \<not> read_blocked c)"
  proof (cases "read_blocked c \<or> buf_size (rbuf c) \<noteq> cap")
    case True
    with ch a b show ?thesis by (auto split: if_splits)
  next
    case False
    with a b have z: "\<not> read_blocked c" "buf_size (rbuf c) = cap" "buf_ptr (rbuf c) = 0"
      "buf_ptr (rbuf c) \<noteq> buf_size (rbuf c)"
      by auto
    with ch have i: "buf_ptr (rbuf c') = 0" "buf_size (rbuf c') = cap" "length (buf (rbuf c')) = cap"
      "take cap (buf (rbuf c')) = take cap (buf (rbuf c))"
      by (auto split: if_splits)
    with len have "buf (rbuf c') = buf (rbuf c)" by simp
    moreover from fp z have "buf_flush_ptr (rbuf c') = buf_flush_ptr (rbuf c)" by simp
    ultimately have "rbuf c' = rbuf c" using i z by (intro Buffer.equality) simp_all
    with eq show ?thesis by simp
  qed
  have inv: "\<forall>t c''. FillReadBuffer cap c = Inr (t, c'') \<longrightarrow>
              rbuf_ok cap (rbuf c'') \<and> read_blocked_ok cap c''"
    using FillReadBuffer_post(1,3) [OF _ assms(1)] assms(2) by blast
  from p f eq move reset same inv show ?thesis by blast
qed

text \<open>
  The theorem at the full buffer: the three unread bytes move to the front; the read
  that follows would block. And at the read-blocked connection: nothing is prepared.
\<close>

lemma fill_prepare_full_rconn:
  "fill_prepare 8 full_rconn =
     Inr (full_rconn\<lparr>rbuf := \<lparr>buf_ptr = 0, buf_size = 3, buf_flush_ptr = 0,
                                buf = [6, 7, 8, 4, 5, 6, 7, 8]\<rparr>\<rparr>)"
  by (simp add: fill_prepare_def full_rconn_def conn0_def copy_range_def Let_def)

theorem FillReadBuffer_precompaction_witness:
  "rbuf_ok 8 (rbuf full_rconn) \<and> read_blocked_ok 8 full_rconn \<and>
   buf_size (rbuf full_rconn) = 8 \<and> buf_ptr (rbuf full_rconn) = 5 \<and>
   fill_prepare 8 full_rconn =
     Inr (full_rconn\<lparr>rbuf := \<lparr>buf_ptr = 0, buf_size = 3, buf_flush_ptr = 0,
                                buf = [6, 7, 8, 4, 5, 6, 7, 8]\<rparr>\<rparr>) \<and>
   FillReadBuffer 8 full_rconn =
     Inr (NEED_DATA, full_rconn\<lparr>rbuf := \<lparr>buf_ptr = 0, buf_size = 3, buf_flush_ptr = 0,
                                buf = [6, 7, 8, 4, 5, 6, 7, 8]\<rparr>, read_script := []\<rparr>) \<and>
   rbuf_ok 8 (rbuf waiting_rconn) \<and> read_blocked_ok 8 waiting_rconn \<and>
   read_blocked waiting_rconn \<and> fill_prepare 8 waiting_rconn = Inr waiting_rconn"
proof -
  have okw: "rbuf_ok 8 (rbuf waiting_rconn)" "read_blocked_ok 8 waiting_rconn"
    and rb: "read_blocked waiting_rconn" "buf_size (rbuf waiting_rconn) \<noteq> 8"
    by (simp_all add: rbuf_ok_def read_blocked_ok_def waiting_rconn_def consumed_rconn_def conn0_def)
  from FillReadBuffer_precompaction [OF okw] rb
  have w: "fill_prepare 8 waiting_rconn = Inr waiting_rconn" by auto
  have ok: "rbuf_ok 8 (rbuf full_rconn)" "read_blocked_ok 8 full_rconn"
    by (simp_all add: rbuf_ok_def read_blocked_ok_def full_rconn_def conn0_def)
  have l: "fill_loop 8 NEED_DATA (full_rconn\<lparr>rbuf := \<lparr>buf_ptr = 0, buf_size = 3, buf_flush_ptr = 0,
                                buf = [6, 7, 8, 4, 5, 6, 7, 8]\<rparr>\<rparr>) =
     Inr (NEED_DATA, full_rconn\<lparr>rbuf := \<lparr>buf_ptr = 0, buf_size = 3, buf_flush_ptr = 0,
                                buf = [6, 7, 8, 4, 5, 6, 7, 8]\<rparr>, read_script := []\<rparr>)"
    by (subst fill_loop.simps) (simp add: full_rconn_def conn0_def)
  from FillReadBuffer_precompaction [OF ok] obtain c' where
    "fill_prepare 8 full_rconn = Inr c'" "FillReadBuffer 8 full_rconn = fill_loop 8 NEED_DATA c'"
    by blast
  with fill_prepare_full_rconn l
  have "FillReadBuffer 8 full_rconn =
     Inr (NEED_DATA, full_rconn\<lparr>rbuf := \<lparr>buf_ptr = 0, buf_size = 3, buf_flush_ptr = 0,
                                buf = [6, 7, 8, 4, 5, 6, 7, 8]\<rparr>, read_script := []\<rparr>)"
    by simp
  moreover have "buf_size (rbuf full_rconn) = 8" "buf_ptr (rbuf full_rconn) = 5"
    by (simp_all add: full_rconn_def conn0_def)
  ultimately show ?thesis using ok fill_prepare_full_rconn okw rb(1) w by simp
qed

text \<open>
  C8 as stated fails in its "no more": with committed = 3 and CAP = 8 the buffer is not
  full, and yet cursor and committed are both put to 0 before the read, because all
  three bytes have been consumed.
\<close>

theorem FillReadBuffer_resets_consumed_buffer:
  "\<not> read_blocked consumed_rconn \<and> buf_size (rbuf consumed_rconn) = 3 \<and>
   buf_ptr (rbuf consumed_rconn) = 3 \<and>
   fill_prepare 8 consumed_rconn =
     Inr (consumed_rconn\<lparr>rbuf := \<lparr>buf_ptr = 0, buf_size = 0, buf_flush_ptr = 0,
                                    buf = [1, 2, 3, 0, 0, 0, 0, 0]\<rparr>\<rparr>) \<and>
   FillReadBuffer 8 consumed_rconn =
     Inr (NEED_DATA, consumed_rconn\<lparr>rbuf := \<lparr>buf_ptr = 0, buf_size = 0, buf_flush_ptr = 0,
                                    buf = [1, 2, 3, 0, 0, 0, 0, 0]\<rparr>, read_script := []\<rparr>)"
  by (simp add: FillReadBuffer_def fill_prepare_def fill_loop.simps consumed_rconn_def conn0_def
      Buffer_Reset_def Let_def)


subsection \<open>Claims about the write path\<close>













text \<open>
  The bytes of a packet on the wire. \<open>big_packet\<close> is a packet of type \<^verbatim>\<open>'D'\<close> whose
  payload of 24566 bytes is 8187 bytes 1, 8187 bytes 2 and 8192 bytes 3; \<open>big_conn\<close> is a
  connection after the startup, on a plain socket, with buffers of 8192 bytes, this
  packet as its only response, and a socket that blocks, then takes 8192 bytes, then
  blocks again. \<open>big_conn1\<close> and \<open>big_conn2\<close> are the connection after the first and the
  second call of \<^verbatim>\<open>WritePackets\<close>.
\<close>

definition serialise :: "bool \<Rightarrow> OutputPacket \<Rightarrow> uchar list" where
  "serialise startup_done pkt = header_bytes startup_done pkt @ pkt_buf pkt"

definition big_packet :: OutputPacket where
  "big_packet =
     \<lparr>pkt_buf = replicate 8187 1 @ replicate 8187 2 @ replicate 8192 3,
      len = 24566, msg_type = 0x44, skip_header_write = False, write_ptr = 0\<rparr>"

definition big_conn :: NetworkConnection where
  "big_conn =
     (conn0 8192)\<lparr>finish_startup_packet := True, protocol_handler := True,
              responses := [big_packet],
              write_script := [SysFailed EAGAIN, SysOk 8192, SysFailed EAGAIN]\<rparr>"

definition big_conn1 :: NetworkConnection where
  "big_conn1 =
     (conn0 8192)\<lparr>finish_startup_packet := True, protocol_handler := True,
              responses := [big_packet\<lparr>skip_header_write := True, write_ptr := 8187\<rparr>],
              wbuf := \<lparr>buf_ptr = 5, buf_size = 8192, buf_flush_ptr = 0,
                       buf = [0x44, 0, 0, 0x5F, 0xFA] @ replicate 8187 1\<rparr>,
              network_event := \<lparr>ev_flags = {EV_WRITE, EV_PERSIST}, ev_pending = True\<rparr>,
              write_script := [SysOk 8192, SysFailed EAGAIN]\<rparr>"

definition big_conn2 :: NetworkConnection where
  "big_conn2 =
     (conn0 8192)\<lparr>finish_startup_packet := True, protocol_handler := True,
              responses := [big_packet\<lparr>skip_header_write := True, write_ptr := 24566\<rparr>],
              wbuf := \<lparr>buf_ptr = 0, buf_size = 8192, buf_flush_ptr = 0,
                       buf = replicate 8192 3\<rparr>,
              network_event := \<lparr>ev_flags = {EV_WRITE, EV_PERSIST}, ev_pending = True\<rparr>,
              sock_out := [0x44, 0, 0, 0x5F, 0xFA] @ replicate 8187 2,
              write_script := []\<rparr>"

lemma htonl_bytes_24570: "htonl_bytes 24570 = [0, 0, 0x5F, 0xFA]"
  by (simp add: htonl_bytes_def)

lemmas big_eval =
  WritePackets_def write_loop.simps BufferWriteBytesHeader_def BufferWriteBytesContent_def
  content_loop.simps FlushWriteBuffer_def flush_plain.simps socket_send_def wire_bytes_in_bounds
  UpdateEvent_def
  Buffer_Reset_def sub_size_t_def copy_range_def Let_def
  htonl_bytes_24570 conn0_def big_packet_def

lemma WritePackets_big_conn: "WritePackets 8192 big_conn = Inr (WRITE_NOT_READY, big_conn1)"
  by (simp add: big_eval big_conn_def big_conn1_def)

lemma WritePackets_big_conn1: "WritePackets 8192 big_conn1 = Inr (WRITE_NOT_READY, big_conn2)"
  by (simp add: big_eval big_conn1_def big_conn2_def)


lemma WritePackets_big_conn2:
  "WritePackets 8192 (big_conn2\<lparr>write_script := [SysOk 8192]\<rparr>) = Inl OutOfBounds"
  by (simp add: big_eval big_conn2_def)

text \<open>
  C1 fails on the code. The first call of \<^verbatim>\<open>WritePackets\<close> buffers the header and the first
  8187 bytes of the payload, finds the socket blocked and returns \<^verbatim>\<open>WRITE_NOT_READY\<close> with
  \<^verbatim>\<open>write_ptr = 8187\<close> and nothing sent. The second call copies the next 8187 bytes of the
  payload over the first ones, which are still waiting in the buffer (\<^verbatim>\<open>buf_ptr\<close> has not
  moved and the buffer is not flushed on entry), and sends the buffer: the peer
  receives the header followed by the second part of the payload, which is not a
  prefix of the packet as serialised; the first part is lost. The call returns
  \<^verbatim>\<open>WRITE_NOT_READY\<close> again with \<^verbatim>\<open>write_ptr = 24566\<close>, the end of the payload, while its local
  \<^verbatim>\<open>len\<close>, initialised with \<^verbatim>\<open>pkt->len\<close> on every entry, is not reduced by what was written
  before: the third call copies 8192 bytes from beyond the end of the payload.
\<close>

theorem WritePackets_reentry_loses_bytes:
  "WritePackets 8192 big_conn = Inr (WRITE_NOT_READY, big_conn1) \<and>
   WritePackets 8192 big_conn1 = Inr (WRITE_NOT_READY, big_conn2) \<and>
   sock_out big_conn2 = [0x44, 0, 0, 0x5F, 0xFA] @ replicate 8187 2 \<and>
   take 8192 (serialise True big_packet) = [0x44, 0, 0, 0x5F, 0xFA] @ replicate 8187 1 \<and>
   \<not> prefix (sock_out big_conn2) (serialise True big_packet) \<and>
   WritePackets 8192 (big_conn2\<lparr>write_script := [SysOk 8192]\<rparr>) = Inl OutOfBounds"
proof -
  have so: "sock_out big_conn2 = [0x44, 0, 0, 0x5F, 0xFA] @ replicate 8187 2"
    by (simp add: big_conn2_def)
  have se: "serialise True big_packet =
      [0x44, 0, 0, 0x5F, 0xFA] @ replicate 8187 1 @ replicate 8187 2 @ replicate 8192 3"
    by (simp add: serialise_def header_bytes_def big_packet_def htonl_bytes_24570)
  have tk: "take 8192 (serialise True big_packet) = [0x44, 0, 0, 0x5F, 0xFA] @ replicate 8187 1"
    unfolding se by simp
  have np: "\<not> prefix (sock_out big_conn2) (serialise True big_packet)"
  proof
    assume "prefix (sock_out big_conn2) (serialise True big_packet)"
    then obtain zs where "serialise True big_packet = sock_out big_conn2 @ zs"
      by (auto simp: prefix_def)
    then have "serialise True big_packet ! 5 = sock_out big_conn2 ! 5"
      by (simp add: so nth_append)
    then show False unfolding se so by (simp add: nth_append)
  qed
  from WritePackets_big_conn WritePackets_big_conn1 so tk np WritePackets_big_conn2
  show ?thesis by simp
qed


text \<open>
  The same loss on a TLS connection, where the flush returns \<^verbatim>\<open>WriteState::WRITE_NOT_READY\<close>
  on \<^verbatim>\<open>SSL_ERROR_WANT_WRITE\<close>: the session wants to write on the first call, still does
  when the second call flushes on entry (\<^verbatim>\<open>WritePackets\<close> ignores that result), and then
  takes 8192 bytes.
\<close>

definition big_tls_conn :: NetworkConnection where
  "big_tls_conn =
     (conn0 8192)\<lparr>finish_startup_packet := True, protocol_handler := True,
              conn_SSL_context := True, responses := [big_packet],
              ssl_write_script := [SslWantWrite, SslWantWrite, SslOk 8192, SslWantWrite]\<rparr>"

definition big_tls_conn1 :: NetworkConnection where
  "big_tls_conn1 =
     (conn0 8192)\<lparr>finish_startup_packet := True, protocol_handler := True,
              conn_SSL_context := True,
              responses := [big_packet\<lparr>skip_header_write := True, write_ptr := 8187\<rparr>],
              wbuf := \<lparr>buf_ptr = 5, buf_size = 8192, buf_flush_ptr = 0,
                       buf = [0x44, 0, 0, 0x5F, 0xFA] @ replicate 8187 1\<rparr>,
              write_blocked := True,
              ssl_write_script := [SslWantWrite, SslOk 8192, SslWantWrite]\<rparr>"

definition big_tls_conn2 :: NetworkConnection where
  "big_tls_conn2 =
     (conn0 8192)\<lparr>finish_startup_packet := True, protocol_handler := True,
              conn_SSL_context := True,
              responses := [big_packet\<lparr>skip_header_write := True, write_ptr := 24566\<rparr>],
              wbuf := \<lparr>buf_ptr = 0, buf_size = 8192, buf_flush_ptr = 0,
                       buf = replicate 8192 3\<rparr>,
              write_blocked := True,
              sock_out := [0x44, 0, 0, 0x5F, 0xFA] @ replicate 8187 2,
              ssl_write_script := []\<rparr>"

lemma WritePackets_big_tls_conn:
  "WritePackets 8192 big_tls_conn = Inr (WRITE_NOT_READY, big_tls_conn1)"
  by (simp add: big_eval flush_ssl.simps big_tls_conn_def big_tls_conn1_def)

lemma WritePackets_big_tls_conn1:
  "WritePackets 8192 big_tls_conn1 = Inr (WRITE_NOT_READY, big_tls_conn2)"
  by (simp add: big_eval flush_ssl.simps big_tls_conn1_def big_tls_conn2_def)

lemma WritePackets_reentry_loses_bytes_tls:
  "WritePackets 8192 big_tls_conn = Inr (WRITE_NOT_READY, big_tls_conn1) \<and>
   WritePackets 8192 big_tls_conn1 = Inr (WRITE_NOT_READY, big_tls_conn2) \<and>
   sock_out big_tls_conn2 = [0x44, 0, 0, 0x5F, 0xFA] @ replicate 8187 2 \<and>
   take 8192 (serialise True big_packet) = [0x44, 0, 0, 0x5F, 0xFA] @ replicate 8187 1"
  using WritePackets_big_tls_conn WritePackets_big_tls_conn1
  by (simp add: big_tls_conn2_def serialise_def header_bytes_def big_packet_def htonl_bytes_24570)


























subsection \<open>The state machine and its network event\<close>






































end
